theory Spec2Isabelle
  imports Main "HOL-Library.Word"
begin

unbundle bit_operations_syntax

section \<open>Term occurrences (terms.h)\<close>

text \<open>
  \<^verbatim>\<open>term_t\<close> is an alias of \<^verbatim>\<open>int32_t\<close>. A 32-bit word models it; the signed
  reading is \<open>sint\<close>. The C shift \<^verbatim>\<open>i << 1\<close> is \<open>push_bit 1\<close> (wrapping at 32 bits),
  the shift \<^verbatim>\<open>x >> 1\<close> of a signed value is the arithmetic shift \<open>signed_drop_bit 1\<close>.
\<close>

type_synonym int32 = "32 word"
type_synonym uint32 = "32 word"
type_synonym term_t = "32 word"

definition pos_term :: "int32 \<Rightarrow> term_t" where
  "pos_term i = push_bit 1 i"

definition neg_term :: "int32 \<Rightarrow> term_t" where
  "neg_term i = push_bit 1 i OR 1"

definition mk_term :: "int32 \<Rightarrow> bool \<Rightarrow> term_t" where
  "mk_term i tt = push_bit 1 i OR ((if tt then 1 else 0) XOR 1)"

definition index_of :: "term_t \<Rightarrow> int32" where
  "index_of x = signed_drop_bit 1 x"

definition polarity_of :: "term_t \<Rightarrow> uint32" where
  "polarity_of x = x AND 1"

definition is_pos_term :: "term_t \<Rightarrow> bool" where
  "is_pos_term x \<longleftrightarrow> polarity_of x = 0"

definition is_neg_term :: "term_t \<Rightarrow> bool" where
  "is_neg_term x \<longleftrightarrow> polarity_of x \<noteq> 0"

definition opposite_term :: "term_t \<Rightarrow> term_t" where
  "opposite_term x = x XOR 1"

definition unsigned_term :: "term_t \<Rightarrow> term_t" where
  "unsigned_term x = x AND NOT 1"

definition signed_term :: "term_t \<Rightarrow> bool \<Rightarrow> term_t" where
  "signed_term x tt = x XOR ((if tt then 1 else 0) XOR 1)"

definition opposite_bool_terms :: "term_t \<Rightarrow> term_t \<Rightarrow> bool" where
  "opposite_bool_terms x y \<longleftrightarrow> x XOR y = 1"

definition bool_const :: int32 where "bool_const = 1"
definition true_term :: term_t where "true_term = 2"
definition false_term :: term_t where "false_term = 3"

definition bool2term :: "bool \<Rightarrow> term_t" where
  "bool2term tt = mk_term bool_const tt"

text \<open>
  The layout documented in terms.h: bit 31 is the sign bit and is 0, bits 30 to 1 hold
  the term index, bit 0 is the polarity. An occurrence is well formed when its sign bit
  is clear; an index fits the layout when it is below \<open>2 ^ 30\<close>.
\<close>

definition sign_bit_clear :: "term_t \<Rightarrow> bool" where
  "sign_bit_clear x \<longleftrightarrow> \<not> bit x 31"

definition index_in_range :: "int32 \<Rightarrow> bool" where
  "index_in_range i \<longleftrightarrow> i < 0x40000000"


section \<open>Boolean variables and literals (new\_sat\_solver.h)\<close>

type_synonym bvar_t = "32 word"
type_synonym literal_t = "32 word"
type_synonym cidx_t = "32 word"

definition MAX_VARIABLES :: "32 word" where
  "MAX_VARIABLES = drop_bit 2 (-1)"

definition pos :: "bvar_t \<Rightarrow> literal_t" where
  "pos x = push_bit 1 x"

definition neg :: "bvar_t \<Rightarrow> literal_t" where
  "neg x = push_bit 1 x + 1"

definition var_of :: "literal_t \<Rightarrow> bvar_t" where
  "var_of l = drop_bit 1 l"

definition sign_of :: "literal_t \<Rightarrow> int32" where
  "sign_of l = l AND 1"

definition not_lit :: "literal_t \<Rightarrow> literal_t" where
  "not_lit l = l XOR 1"

definition opposite :: "literal_t \<Rightarrow> literal_t \<Rightarrow> bool" where
  "opposite l1 l2 \<longleftrightarrow> l1 XOR l2 = 1"

definition is_pos :: "literal_t \<Rightarrow> bool" where
  "is_pos l \<longleftrightarrow> l AND 1 = 0"

definition is_neg :: "literal_t \<Rightarrow> bool" where
  "is_neg l \<longleftrightarrow> l AND 1 \<noteq> 0"


section \<open>Bit-level facts about 32-bit words\<close>

lemma bit_below_2p30:
  assumes "(i::32 word) < 2 ^ 30" and "bit i n"
  shows "n < 30"
proof -
  have "i AND mask 30 = i" using assms(1) by (rule less_mask_eq)
  then have "bit (i AND mask 30) n" using assms(2) by simp
  then show ?thesis by (simp add: bit_simps)
qed

lemma bit_below_2p31:
  assumes "(i::32 word) < 2 ^ 31" and "bit i n"
  shows "n < 31"
proof -
  have "i AND mask 31 = i" using assms(1) by (rule less_mask_eq)
  then have "bit (i AND mask 31) n" using assms(2) by simp
  then show ?thesis by (simp add: bit_simps)
qed

lemma bit_shl1:
  "bit (push_bit 1 (i::32 word)) m \<longleftrightarrow> 0 < m \<and> m < 32 \<and> bit i (m - 1)"
  unfolding bit_push_bit_iff by (auto simp add: bit_simps dest: bit_imp_le_length)

lemma bit_sar1:
  "bit (signed_drop_bit 1 (x::32 word)) m \<longleftrightarrow>
     (if m = 31 then bit x 31 else m < 31 \<and> bit x (Suc m))"
  unfolding bit_signed_drop_bit_iff by (auto dest: bit_imp_le_length)

lemma bit_shr1:
  "bit (drop_bit 1 (x::32 word)) m \<longleftrightarrow> m < 31 \<and> bit x (Suc m)"
  unfolding bit_drop_bit_eq by (auto dest: bit_imp_le_length)

lemma bit_and1: "bit (x AND (1::32 word)) m \<longleftrightarrow> m = 0 \<and> bit x 0"
  by (auto simp add: bit_simps)

lemma bit_one_word: "bit (1::32 word) m \<longleftrightarrow> m = 0"
  by (auto simp add: bit_simps)

lemma and1_cases: "x AND 1 = 0 \<or> x AND 1 = (1::32 word)"
  by (cases "even x") (simp_all add: and_one_eq even_iff_mod_2_eq_zero odd_iff_mod_2_eq_one)

lemma xor1_xor1: "(x XOR 1) XOR 1 = (x::32 word)"
  by (simp add: xor.assoc)

lemma index_of_shl_or:
  assumes "(i::32 word) < 2 ^ 30" and "b AND 1 = b"
  shows "index_of (push_bit 1 i OR b) = i"
  unfolding index_of_def
proof (rule bit_word_eqI)
  fix n assume n: "n < LENGTH(32)"
  have b: "bit b m \<longleftrightarrow> m = 0 \<and> bit b 0" for m
    using bit_and1[of b m] assms(2) by simp
  show "bit (signed_drop_bit 1 (push_bit 1 i OR b)) n = bit i n"
    using n bit_below_2p30[OF assms(1), of n] bit_below_2p30[OF assms(1), of 30]
      b[of "Suc n"] b[of 31]
    unfolding bit_sar1 bit_or_iff bit_shl1
    by auto
qed

lemma occurrence_decomposition: "push_bit 1 (index_of t) OR polarity_of t = t"
  unfolding index_of_def polarity_of_def
proof (rule bit_word_eqI)
  fix n assume n: "n < LENGTH(32)"
  show "bit (push_bit 1 (signed_drop_bit 1 t) OR t AND 1) n = bit t n"
    using n unfolding bit_or_iff bit_shl1 bit_sar1 bit_and1
    by (cases n) auto
qed

lemma polarity_shl_or:
  assumes "b AND 1 = (b::32 word)"
  shows "polarity_of (push_bit 1 i OR b) = b"
  unfolding polarity_of_def
proof (rule bit_word_eqI)
  fix n assume "n < LENGTH(32)"
  have b: "bit b m \<longleftrightarrow> m = 0 \<and> bit b 0" for m
    using bit_and1[of b m] assms by simp
  show "bit ((push_bit 1 i OR b) AND 1) n = bit b n"
    using b[of n] unfolding bit_and1 bit_or_iff bit_shl1 by auto
qed

lemma sign_bit_shl_or:
  assumes "(i::32 word) < 2 ^ 30" and "b AND 1 = b"
  shows "\<not> bit (push_bit 1 i OR b) 31"
proof -
  have b: "bit b m \<longleftrightarrow> m = 0 \<and> bit b 0" for m
    using bit_and1[of b m] assms(2) by simp
  show ?thesis
    using bit_below_2p30[OF assms(1), of 30] b[of 31]
    unfolding bit_or_iff bit_shl1 by auto
qed


section \<open>Claim C7: packing of index and polarity\<close>

text \<open>
  C7, as stated, for an index representable in 31 bits: the index \<open>2 ^ 30\<close> needs 31 bits,
  yet \<^verbatim>\<open>pos_term\<close> shifts its top bit into the sign bit and \<^verbatim>\<open>index_of\<close> does not
  return it.
\<close>

theorem C7_index_31_bits_counterexample:
  "index_of (pos_term 0x40000000) \<noteq> 0x40000000 \<and> \<not> sign_bit_clear (pos_term 0x40000000)"
  by (simp add: index_of_def pos_term_def sign_bit_clear_def)

text \<open>
  C7, amended: for every term index \<open>i\<close> with \<open>0 \<le> i < 2 ^ 30\<close> (30 bits, as the layout
  in terms.h reserves bit 31 for a zero sign bit), \<^verbatim>\<open>pos_term(i)\<close> and \<^verbatim>\<open>neg_term(i)\<close>
  are occurrences with a clear sign bit, \<^verbatim>\<open>index_of\<close> recovers \<open>i\<close> from both and
  \<^verbatim>\<open>polarity_of\<close> recovers the polarity bit (0, respectively 1).
\<close>

theorem C7_index_polarity_roundtrip:
  assumes "index_in_range i"
  shows "index_of (pos_term i) = i \<and> polarity_of (pos_term i) = 0
       \<and> index_of (neg_term i) = i \<and> polarity_of (neg_term i) = 1
       \<and> sign_bit_clear (pos_term i) \<and> sign_bit_clear (neg_term i)"
proof -
  have i: "i < 2 ^ 30" using assms by (simp add: index_in_range_def)
  have z: "(0::32 word) AND 1 = 0" and o: "(1::32 word) AND 1 = 1" by simp_all
  have p: "pos_term i = push_bit 1 i OR 0" by (simp add: pos_term_def)
  have n: "neg_term i = push_bit 1 i OR 1" by (simp add: neg_term_def)
  show ?thesis
    unfolding p n sign_bit_clear_def
    using index_of_shl_or[OF i z] index_of_shl_or[OF i o]
      polarity_shl_or[OF z, of i] polarity_shl_or[OF o, of i]
      sign_bit_shl_or[OF i z] sign_bit_shl_or[OF i o]
    by blast
qed

theorem C7_index_polarity_roundtrip_witness:
  "index_in_range 5 \<and> index_of (pos_term 5) = 5 \<and> polarity_of (pos_term 5) = 0
     \<and> index_of (neg_term 5) = 5 \<and> polarity_of (neg_term 5) = 1
     \<and> pos_term 5 = 10 \<and> neg_term 5 = 11"
proof -
  have h: "index_in_range 5" by (simp add: index_in_range_def)
  show ?thesis
    using h C7_index_polarity_roundtrip[OF h] by (simp add: pos_term_def neg_term_def)
qed

section \<open>Context options (context.h)\<close>

datatype context_mode_t =
  CTX_MODE_ONECHECK | CTX_MODE_MULTICHECKS | CTX_MODE_PUSHPOP | CTX_MODE_INTERACTIVE

datatype context_arch_t =
  CTX_ARCH_NOSOLVERS | CTX_ARCH_EG | CTX_ARCH_SPLX | CTX_ARCH_IFW | CTX_ARCH_RFW
| CTX_ARCH_BV | CTX_ARCH_EGFUN | CTX_ARCH_EGSPLX | CTX_ARCH_EGBV | CTX_ARCH_EGFUNSPLX
| CTX_ARCH_EGFUNBV | CTX_ARCH_EGSPLXBV | CTX_ARCH_EGFUNSPLXBV
| CTX_ARCH_AUTO_IDL | CTX_ARCH_AUTO_RDL

text \<open>
  The scalar fields of \<^verbatim>\<open>struct context_s\<close>. The option functions read and write
  \<^verbatim>\<open>options\<close> only; they are stated for every extension of the record.
\<close>

record context_t =
  mode :: context_mode_t
  arch :: context_arch_t
  theories :: uint32
  options :: uint32
  base_level :: uint32

definition MULTICHECKS_OPTION_MASK :: uint32 where "MULTICHECKS_OPTION_MASK = 0x1"
definition PUSHPOP_OPTION_MASK :: uint32 where "PUSHPOP_OPTION_MASK = 0x2"
definition CLEANINT_OPTION_MASK :: uint32 where "CLEANINT_OPTION_MASK = 0x4"
definition VARELIM_OPTION_MASK :: uint32 where "VARELIM_OPTION_MASK = 0x10"
definition FLATTENOR_OPTION_MASK :: uint32 where "FLATTENOR_OPTION_MASK = 0x20"
definition FLATTENDISEQ_OPTION_MASK :: uint32 where "FLATTENDISEQ_OPTION_MASK = 0x40"
definition EQABSTRACT_OPTION_MASK :: uint32 where "EQABSTRACT_OPTION_MASK = 0x80"
definition ARITHELIM_OPTION_MASK :: uint32 where "ARITHELIM_OPTION_MASK = 0x100"
definition KEEP_ITE_OPTION_MASK :: uint32 where "KEEP_ITE_OPTION_MASK = 0x200"
definition BVARITHELIM_OPTION_MASK :: uint32 where "BVARITHELIM_OPTION_MASK = 0x400"
definition BREAKSYM_OPTION_MASK :: uint32 where "BREAKSYM_OPTION_MASK = 0x800"
definition PSEUDO_INVERSE_OPTION_MASK :: uint32 where "PSEUDO_INVERSE_OPTION_MASK = 0x1000"
definition LAX_OPTION_MASK :: uint32 where "LAX_OPTION_MASK = 0x40000000"
definition DUMP_OPTION_MASK :: uint32 where "DUMP_OPTION_MASK = 0x80000000"

lemmas option_masks =
  MULTICHECKS_OPTION_MASK_def PUSHPOP_OPTION_MASK_def CLEANINT_OPTION_MASK_def
  VARELIM_OPTION_MASK_def FLATTENOR_OPTION_MASK_def FLATTENDISEQ_OPTION_MASK_def
  EQABSTRACT_OPTION_MASK_def ARITHELIM_OPTION_MASK_def KEEP_ITE_OPTION_MASK_def
  BVARITHELIM_OPTION_MASK_def BREAKSYM_OPTION_MASK_def PSEUDO_INVERSE_OPTION_MASK_def
  LAX_OPTION_MASK_def DUMP_OPTION_MASK_def

text \<open>\<^verbatim>\<open>ctx->options |= m\<close> and \<^verbatim>\<open>ctx->options &= ~m\<close>.\<close>

definition set_option_bits :: "uint32 \<Rightarrow> 'a context_t_scheme \<Rightarrow> 'a context_t_scheme" where
  "set_option_bits m ctx = ctx\<lparr>options := options ctx OR m\<rparr>"

definition clear_option_bits :: "uint32 \<Rightarrow> 'a context_t_scheme \<Rightarrow> 'a context_t_scheme" where
  "clear_option_bits m ctx = ctx\<lparr>options := options ctx AND NOT m\<rparr>"

definition enable_variable_elimination :: "'a context_t_scheme \<Rightarrow> 'a context_t_scheme" where
  "enable_variable_elimination = set_option_bits VARELIM_OPTION_MASK"

definition disable_variable_elimination :: "'a context_t_scheme \<Rightarrow> 'a context_t_scheme" where
  "disable_variable_elimination = clear_option_bits VARELIM_OPTION_MASK"

definition enable_or_flattening :: "'a context_t_scheme \<Rightarrow> 'a context_t_scheme" where
  "enable_or_flattening = set_option_bits FLATTENOR_OPTION_MASK"

definition disable_or_flattening :: "'a context_t_scheme \<Rightarrow> 'a context_t_scheme" where
  "disable_or_flattening = clear_option_bits FLATTENOR_OPTION_MASK"

definition enable_diseq_and_or_flattening :: "'a context_t_scheme \<Rightarrow> 'a context_t_scheme" where
  "enable_diseq_and_or_flattening =
     set_option_bits (FLATTENOR_OPTION_MASK OR FLATTENDISEQ_OPTION_MASK)"

definition disable_diseq_and_or_flattening :: "'a context_t_scheme \<Rightarrow> 'a context_t_scheme" where
  "disable_diseq_and_or_flattening =
     clear_option_bits (FLATTENOR_OPTION_MASK OR FLATTENDISEQ_OPTION_MASK)"

definition enable_eq_abstraction :: "'a context_t_scheme \<Rightarrow> 'a context_t_scheme" where
  "enable_eq_abstraction = set_option_bits EQABSTRACT_OPTION_MASK"

definition disable_eq_abstraction :: "'a context_t_scheme \<Rightarrow> 'a context_t_scheme" where
  "disable_eq_abstraction = clear_option_bits EQABSTRACT_OPTION_MASK"

definition enable_arith_elimination :: "'a context_t_scheme \<Rightarrow> 'a context_t_scheme" where
  "enable_arith_elimination = set_option_bits ARITHELIM_OPTION_MASK"

definition disable_arith_elimination :: "'a context_t_scheme \<Rightarrow> 'a context_t_scheme" where
  "disable_arith_elimination = clear_option_bits ARITHELIM_OPTION_MASK"

definition enable_keep_ite :: "'a context_t_scheme \<Rightarrow> 'a context_t_scheme" where
  "enable_keep_ite = set_option_bits KEEP_ITE_OPTION_MASK"

definition disable_keep_ite :: "'a context_t_scheme \<Rightarrow> 'a context_t_scheme" where
  "disable_keep_ite = clear_option_bits KEEP_ITE_OPTION_MASK"

definition enable_bvarith_elimination :: "'a context_t_scheme \<Rightarrow> 'a context_t_scheme" where
  "enable_bvarith_elimination = set_option_bits BVARITHELIM_OPTION_MASK"

definition disable_bvarith_elimination :: "'a context_t_scheme \<Rightarrow> 'a context_t_scheme" where
  "disable_bvarith_elimination = clear_option_bits BVARITHELIM_OPTION_MASK"

definition enable_symmetry_breaking :: "'a context_t_scheme \<Rightarrow> 'a context_t_scheme" where
  "enable_symmetry_breaking = set_option_bits BREAKSYM_OPTION_MASK"

definition disable_symmetry_breaking :: "'a context_t_scheme \<Rightarrow> 'a context_t_scheme" where
  "disable_symmetry_breaking = clear_option_bits BREAKSYM_OPTION_MASK"

definition enable_pseudo_inverse_simplification :: "'a context_t_scheme \<Rightarrow> 'a context_t_scheme" where
  "enable_pseudo_inverse_simplification = set_option_bits PSEUDO_INVERSE_OPTION_MASK"

definition disable_pseudo_inverse_simplification :: "'a context_t_scheme \<Rightarrow> 'a context_t_scheme" where
  "disable_pseudo_inverse_simplification = clear_option_bits PSEUDO_INVERSE_OPTION_MASK"

definition enable_dump :: "'a context_t_scheme \<Rightarrow> 'a context_t_scheme" where
  "enable_dump = set_option_bits DUMP_OPTION_MASK"

definition disable_dump :: "'a context_t_scheme \<Rightarrow> 'a context_t_scheme" where
  "disable_dump = clear_option_bits DUMP_OPTION_MASK"

definition enable_lax_mode :: "'a context_t_scheme \<Rightarrow> 'a context_t_scheme" where
  "enable_lax_mode = set_option_bits LAX_OPTION_MASK"

definition disable_lax_mode :: "'a context_t_scheme \<Rightarrow> 'a context_t_scheme" where
  "disable_lax_mode = clear_option_bits LAX_OPTION_MASK"

definition context_var_elim_enabled :: "'a context_t_scheme \<Rightarrow> bool" where
  "context_var_elim_enabled ctx \<longleftrightarrow> options ctx AND VARELIM_OPTION_MASK \<noteq> 0"

definition context_flatten_or_enabled :: "'a context_t_scheme \<Rightarrow> bool" where
  "context_flatten_or_enabled ctx \<longleftrightarrow> options ctx AND FLATTENOR_OPTION_MASK \<noteq> 0"

definition context_flatten_diseq_enabled :: "'a context_t_scheme \<Rightarrow> bool" where
  "context_flatten_diseq_enabled ctx \<longleftrightarrow> options ctx AND FLATTENDISEQ_OPTION_MASK \<noteq> 0"

text \<open>Every option-setting and option-clearing function of context.h, as one operation.\<close>

datatype option_op =
  Enable_variable_elimination | Disable_variable_elimination
| Enable_or_flattening | Disable_or_flattening
| Enable_diseq_and_or_flattening | Disable_diseq_and_or_flattening
| Enable_eq_abstraction | Disable_eq_abstraction
| Enable_arith_elimination | Disable_arith_elimination
| Enable_keep_ite | Disable_keep_ite
| Enable_bvarith_elimination | Disable_bvarith_elimination
| Enable_symmetry_breaking | Disable_symmetry_breaking
| Enable_pseudo_inverse_simplification | Disable_pseudo_inverse_simplification
| Enable_dump | Disable_dump
| Enable_lax_mode | Disable_lax_mode

fun apply_option_op :: "option_op \<Rightarrow> 'a context_t_scheme \<Rightarrow> 'a context_t_scheme" where
  "apply_option_op Enable_variable_elimination = enable_variable_elimination"
| "apply_option_op Disable_variable_elimination = disable_variable_elimination"
| "apply_option_op Enable_or_flattening = enable_or_flattening"
| "apply_option_op Disable_or_flattening = disable_or_flattening"
| "apply_option_op Enable_diseq_and_or_flattening = enable_diseq_and_or_flattening"
| "apply_option_op Disable_diseq_and_or_flattening = disable_diseq_and_or_flattening"
| "apply_option_op Enable_eq_abstraction = enable_eq_abstraction"
| "apply_option_op Disable_eq_abstraction = disable_eq_abstraction"
| "apply_option_op Enable_arith_elimination = enable_arith_elimination"
| "apply_option_op Disable_arith_elimination = disable_arith_elimination"
| "apply_option_op Enable_keep_ite = enable_keep_ite"
| "apply_option_op Disable_keep_ite = disable_keep_ite"
| "apply_option_op Enable_bvarith_elimination = enable_bvarith_elimination"
| "apply_option_op Disable_bvarith_elimination = disable_bvarith_elimination"
| "apply_option_op Enable_symmetry_breaking = enable_symmetry_breaking"
| "apply_option_op Disable_symmetry_breaking = disable_symmetry_breaking"
| "apply_option_op Enable_pseudo_inverse_simplification = enable_pseudo_inverse_simplification"
| "apply_option_op Disable_pseudo_inverse_simplification = disable_pseudo_inverse_simplification"
| "apply_option_op Enable_dump = enable_dump"
| "apply_option_op Disable_dump = disable_dump"
| "apply_option_op Enable_lax_mode = enable_lax_mode"
| "apply_option_op Disable_lax_mode = disable_lax_mode"

lemmas option_functions =
  enable_variable_elimination_def disable_variable_elimination_def
  enable_or_flattening_def disable_or_flattening_def
  enable_diseq_and_or_flattening_def disable_diseq_and_or_flattening_def
  enable_eq_abstraction_def disable_eq_abstraction_def
  enable_arith_elimination_def disable_arith_elimination_def
  enable_keep_ite_def disable_keep_ite_def
  enable_bvarith_elimination_def disable_bvarith_elimination_def
  enable_symmetry_breaking_def disable_symmetry_breaking_def
  enable_pseudo_inverse_simplification_def disable_pseudo_inverse_simplification_def
  enable_dump_def disable_dump_def enable_lax_mode_def disable_lax_mode_def

text \<open>The dependency between the two flattening options.\<close>

definition diseq_implies_or :: "'a context_t_scheme \<Rightarrow> bool" where
  "diseq_implies_or ctx \<longleftrightarrow>
     (context_flatten_diseq_enabled ctx \<longrightarrow> context_flatten_or_enabled ctx)"

definition zero_context :: context_t where
  "zero_context = \<lparr>mode = CTX_MODE_ONECHECK, arch = CTX_ARCH_BV, theories = 0x2,
     options = 0, base_level = 0\<rparr>"

lemma flatten_or_bit: "context_flatten_or_enabled ctx \<longleftrightarrow> bit (options ctx) 5"
  using and_exp_eq_0_iff_not_bit[of "options ctx" 5]
  by (simp add: context_flatten_or_enabled_def FLATTENOR_OPTION_MASK_def)

lemma flatten_diseq_bit: "context_flatten_diseq_enabled ctx \<longleftrightarrow> bit (options ctx) 6"
  using and_exp_eq_0_iff_not_bit[of "options ctx" 6]
  by (simp add: context_flatten_diseq_enabled_def FLATTENDISEQ_OPTION_MASK_def)

lemma diseq_implies_or_bits:
  "diseq_implies_or ctx \<longleftrightarrow> (bit (options ctx) 6 \<longrightarrow> bit (options ctx) 5)"
  by (simp add: diseq_implies_or_def flatten_or_bit flatten_diseq_bit)

text \<open>
  Every operation other than \<^verbatim>\<open>disable_or_flattening\<close> keeps the dependency that
  context.h states beside the masks (\<^verbatim>\<open>FLATTENDISEQ\<close> requires \<^verbatim>\<open>FLATTENOR\<close>):
  \<^verbatim>\<open>enable_diseq_and_or_flattening\<close> sets both bits,
  \<^verbatim>\<open>disable_diseq_and_or_flattening\<close> clears both, and no other operation touches
  either bit, except \<^verbatim>\<open>enable_or_flattening\<close>, which sets the or-flattening bit.
  \<^verbatim>\<open>disable_or_flattening\<close> keeps it only when the diseq-flattening bit is clear.
\<close>

lemma option_ops_keep_dependency:
  "diseq_implies_or (enable_diseq_and_or_flattening ctx)
   \<and> diseq_implies_or (disable_diseq_and_or_flattening ctx)
   \<and> (opr \<noteq> Disable_or_flattening \<longrightarrow> diseq_implies_or ctx
        \<longrightarrow> diseq_implies_or (apply_option_op opr ctx))
   \<and> (\<not> context_flatten_diseq_enabled ctx \<longrightarrow> diseq_implies_or (disable_or_flattening ctx))
   \<and> (context_flatten_diseq_enabled ctx \<longrightarrow> \<not> diseq_implies_or (disable_or_flattening ctx))"
proof -
  have a: "diseq_implies_or (enable_diseq_and_or_flattening ctx)"
    by (simp add: diseq_implies_or_bits enable_diseq_and_or_flattening_def
        set_option_bits_def option_masks bit_simps)
  have b: "diseq_implies_or (disable_diseq_and_or_flattening ctx)"
    by (simp add: diseq_implies_or_bits disable_diseq_and_or_flattening_def
        clear_option_bits_def option_masks bit_simps)
  have c: "diseq_implies_or (apply_option_op opr ctx)"
    if "opr \<noteq> Disable_or_flattening" and "diseq_implies_or ctx"
    using that
    by (cases opr)
      (simp_all add: diseq_implies_or_bits option_functions set_option_bits_def
        clear_option_bits_def option_masks bit_simps)
  have d: "diseq_implies_or (disable_or_flattening ctx) \<longleftrightarrow> \<not> context_flatten_diseq_enabled ctx"
    by (simp add: diseq_implies_or_bits flatten_diseq_bit disable_or_flattening_def
        clear_option_bits_def option_masks bit_simps)
  from a b c d show ?thesis by blast
qed

text \<open>
  Claim C6 fails at \<^verbatim>\<open>disable_or_flattening\<close>. Starting from a context with no option
  set, \<^verbatim>\<open>enable_diseq_and_or_flattening\<close> sets both flattening bits (options
  \<open>0x60\<close>); \<^verbatim>\<open>disable_or_flattening\<close> then clears \<^verbatim>\<open>FLATTENOR_OPTION_MASK\<close> alone
  and leaves options \<open>0x40\<close>: diseq-flattening is enabled and or-flattening is not, against
  the requirement stated in context.h.
\<close>

theorem C6_disable_or_flattening_breaks_dependency:
  "options (enable_diseq_and_or_flattening zero_context) = 0x60
   \<and> context_flatten_diseq_enabled (enable_diseq_and_or_flattening zero_context)
   \<and> context_flatten_or_enabled (enable_diseq_and_or_flattening zero_context)
   \<and> options (disable_or_flattening (enable_diseq_and_or_flattening zero_context)) = 0x40
   \<and> context_flatten_diseq_enabled
        (disable_or_flattening (enable_diseq_and_or_flattening zero_context))
   \<and> \<not> context_flatten_or_enabled
        (disable_or_flattening (enable_diseq_and_or_flattening zero_context))
   \<and> options (disable_diseq_and_or_flattening (enable_diseq_and_or_flattening zero_context)) = 0"
  by (simp add: context_flatten_diseq_enabled_def
      context_flatten_or_enabled_def disable_or_flattening_def
      enable_diseq_and_or_flattening_def disable_diseq_and_or_flattening_def
      set_option_bits_def clear_option_bits_def
      zero_context_def FLATTENOR_OPTION_MASK_def FLATTENDISEQ_OPTION_MASK_def)


section \<open>Command line of the SMT-LIB 2 front end (yices\_smt2.c)\<close>

datatype optid_t =
  show_version_opt | show_help_opt | show_stats_opt | verbosity_opt
| incremental_opt | interactive_opt

text \<open>
  \<^verbatim>\<open>cmdline_parse_element\<close> (utils/command\_line.c, not among the sources) turns
  \<^verbatim>\<open>argv\<close> into a sequence of elements; \<^verbatim>\<open>parse_command_line\<close> is modelled on that
  sequence. An element has status \<^verbatim>\<open>cmdline_argument\<close> (with \<^verbatim>\<open>arg\<close>),
  \<^verbatim>\<open>cmdline_option\<close> (with \<^verbatim>\<open>key\<close> and \<^verbatim>\<open>i_value\<close>) or \<^verbatim>\<open>cmdline_error\<close>; the
  end of the list is \<^verbatim>\<open>cmdline_done\<close>. Messages written to stdout and stderr are
  not modelled.
\<close>

datatype cmdline_elem_t =
  Cmdline_argument string
| Cmdline_option optid_t int32
| Cmdline_error

text \<open>
  Modelled from the spec: yices\_exit\_codes.h is not among the sources; the values of
  the exit codes are the contract constants the spec lists.
\<close>

definition YICES_EXIT_SUCCESS :: int where "YICES_EXIT_SUCCESS = 0"
definition YICES_EXIT_USAGE :: int where "YICES_EXIT_USAGE = 16"
definition YICES_EXIT_FILE_NOT_FOUND :: int where "YICES_EXIT_FILE_NOT_FOUND = 17"
definition YICES_EXIT_INTERRUPTED :: int where "YICES_EXIT_INTERRUPTED = 40"
definition YICES_EXIT_OUT_OF_MEMORY :: int where "YICES_EXIT_OUT_OF_MEMORY = 48"

text \<open>The global variables that \<^verbatim>\<open>parse_command_line\<close> sets.\<close>

record cli_globals =
  filename :: "string option"
  incremental :: bool
  interactive :: bool
  show_stats :: bool
  verbosity :: int32

definition initial_globals :: cli_globals where
  "initial_globals = \<lparr>filename = None, incremental = False, interactive = False,
     show_stats = False, verbosity = 0\<rparr>"

text \<open>
  The \<^verbatim>\<open>for (;;)\<close> loop: \<open>Inl c\<close> is a call of \<^verbatim>\<open>exit(c)\<close>, \<open>Inr g\<close> the globals on
  reaching the label \<^verbatim>\<open>done\<close>.
\<close>

fun parse_elements :: "cli_globals \<Rightarrow> cmdline_elem_t list \<Rightarrow> int + cli_globals" where
  "parse_elements g [] = Inr g"
| "parse_elements g (Cmdline_argument a # es) =
     (if filename g = None then parse_elements (g\<lparr>filename := Some a\<rparr>) es
      else Inl YICES_EXIT_USAGE)"
| "parse_elements g (Cmdline_option show_version_opt v # es) = Inl YICES_EXIT_SUCCESS"
| "parse_elements g (Cmdline_option show_help_opt v # es) = Inl YICES_EXIT_SUCCESS"
| "parse_elements g (Cmdline_option show_stats_opt v # es) =
     parse_elements (g\<lparr>show_stats := True\<rparr>) es"
| "parse_elements g (Cmdline_option verbosity_opt v # es) =
     (if sint v < 0 then Inl YICES_EXIT_USAGE
      else parse_elements (g\<lparr>verbosity := v\<rparr>) es)"
| "parse_elements g (Cmdline_option incremental_opt v # es) =
     parse_elements (g\<lparr>incremental := True\<rparr>) es"
| "parse_elements g (Cmdline_option interactive_opt v # es) =
     parse_elements (g\<lparr>interactive := True\<rparr>) es"
| "parse_elements g (Cmdline_error # es) = Inl YICES_EXIT_USAGE"

definition parse_command_line :: "cmdline_elem_t list \<Rightarrow> int + cli_globals" where
  "parse_command_line es =
     (case parse_elements initial_globals es of
        Inl c \<Rightarrow> Inl c
      | Inr g \<Rightarrow> Inr (if filename g \<noteq> None then g\<lparr>interactive := False\<rparr> else g))"

text \<open>
  The command loop of \<^verbatim>\<open>main\<close>. The SMT-LIB 2 parser is not among the sources: a run
  is given by what each call of \<^verbatim>\<open>parse_smt2_command\<close> does while \<^verbatim>\<open>smt2_active()\<close>
  holds: it returns a code, or the process exits inside it (out of memory, a signal).
  At the end of the list \<^verbatim>\<open>smt2_active()\<close> is false. \<open>None\<close> is leaving the loop,
  \<open>Some c\<close> is an exit with status \<open>c\<close> inside it.
\<close>

datatype smt2_step = Smt2_returns int32 | Smt2_exits int

fun command_loop :: "bool \<Rightarrow> smt2_step list \<Rightarrow> int option" where
  "command_loop ia [] = None"
| "command_loop ia (Smt2_exits c # rest) = Some c"
| "command_loop ia (Smt2_returns code # rest) =
     (if sint code < 0 then (if ia then command_loop ia rest else None)
      else command_loop ia rest)"

text \<open>
  \<^verbatim>\<open>main\<close>: \<open>file_opens f\<close> says that \<^verbatim>\<open>init_smt2_file_lexer\<close> succeeds on \<open>f\<close>
  (returns a non-negative value). The result is the exit status of the process.
\<close>

definition main :: "cmdline_elem_t list \<Rightarrow> (string \<Rightarrow> bool) \<Rightarrow> smt2_step list \<Rightarrow> int" where
  "main es file_opens steps =
     (case parse_command_line es of
        Inl c \<Rightarrow> c
      | Inr g \<Rightarrow>
          (if (case filename g of Some f \<Rightarrow> \<not> file_opens f | None \<Rightarrow> False)
           then YICES_EXIT_FILE_NOT_FOUND
           else (case command_loop (interactive g) steps of
                   Some c \<Rightarrow> c
                 | None \<Rightarrow> YICES_EXIT_SUCCESS)))"

fun is_argument :: "cmdline_elem_t \<Rightarrow> bool" where
  "is_argument (Cmdline_argument a) = True"
| "is_argument _ = False"

fun is_version_or_help :: "cmdline_elem_t \<Rightarrow> bool" where
  "is_version_or_help (Cmdline_option show_version_opt v) = True"
| "is_version_or_help (Cmdline_option show_help_opt v) = True"
| "is_version_or_help _ = False"

fun is_bad_option :: "cmdline_elem_t \<Rightarrow> bool" where
  "is_bad_option Cmdline_error = True"
| "is_bad_option (Cmdline_option verbosity_opt v) = (sint v < 0)"
| "is_bad_option _ = False"

fun returns_normally :: "smt2_step \<Rightarrow> bool" where
  "returns_normally (Smt2_returns code) = True"
| "returns_normally (Smt2_exits c) = False"

definition no_file_opens :: "string \<Rightarrow> bool" where
  "no_file_opens f = False"

definition every_file_opens :: "string \<Rightarrow> bool" where
  "every_file_opens f = True"

lemma parse_elements_usage:
  assumes "list_all (\<lambda>x. \<not> is_version_or_help x) pre"
    and "is_bad_option e \<or> (is_argument e \<and> (filename g \<noteq> None \<or> list_ex is_argument pre))"
  shows "parse_elements g (pre @ e # post) = Inl YICES_EXIT_USAGE"
  using assms
proof (induction pre arbitrary: g)
  case Nil
  then show ?case
    by (cases "(g, e # post)" rule: parse_elements.cases) auto
next
  case (Cons x pre)
  then show ?case
    by (cases "(g, x # pre @ e # post)" rule: parse_elements.cases) auto
qed

lemma parse_elements_version_or_help:
  assumes "list_all (\<lambda>x. \<not> is_bad_option x) pre"
    and "filter is_argument pre = []
         \<or> (filename g = None \<and> length (filter is_argument pre) \<le> 1)"
    and "is_version_or_help e"
  shows "parse_elements g (pre @ e # post) = Inl YICES_EXIT_SUCCESS"
  using assms
proof (induction pre arbitrary: g)
  case Nil
  then show ?case
    by (cases "(g, e # post)" rule: parse_elements.cases) auto
next
  case (Cons x pre)
  then show ?case
    by (cases "(g, x # pre @ e # post)" rule: parse_elements.cases) (auto split: if_splits)
qed

lemma parse_elements_keeps_filename:
  "parse_elements g es = Inr g' \<Longrightarrow> filename g \<noteq> None \<Longrightarrow> filename g' \<noteq> None"
proof (induction g es rule: parse_elements.induct)
  case (2 g a es)
  then show ?case by (simp split: if_splits)
next
  case (6 g v es)
  then show ?case by (simp split: if_splits)
qed simp_all

lemma parse_elements_sets_filename:
  "parse_elements g es = Inr g' \<Longrightarrow> list_ex is_argument es \<Longrightarrow> filename g' \<noteq> None"
proof (induction g es rule: parse_elements.induct)
  case (2 g a es)
  then show ?case
    using parse_elements_keeps_filename[of "g\<lparr>filename := Some a\<rparr>" es g']
    by (simp split: if_splits)
next
  case (6 g v es)
  then show ?case by (simp split: if_splits)
qed simp_all

lemma command_loop_returns:
  "list_all returns_normally steps \<Longrightarrow> command_loop ia steps = None"
  by (induction ia steps rule: command_loop.induct) simp_all

text \<open>
  C9, as stated: a command line with a \<^verbatim>\<open>--help\<close> option followed by two positional
  arguments has a second positional argument, and the program exits with 0, not with
  the usage-error code: the help option is met first.
\<close>

theorem C9_help_before_second_argument_counterexample:
  "main [Cmdline_option show_help_opt 0, Cmdline_argument ''a'', Cmdline_argument ''b'']
      every_file_opens [] = 0
   \<and> main [Cmdline_option show_help_opt 0, Cmdline_argument ''a'', Cmdline_argument ''b'']
      every_file_opens [] \<noteq> YICES_EXIT_USAGE"
  by (simp add: main_def parse_command_line_def YICES_EXIT_SUCCESS_def YICES_EXIT_USAGE_def)

text \<open>
  C9, amended: the elements of the command line are processed from left to right. When
  no \<^verbatim>\<open>--version\<close> or \<^verbatim>\<open>--help\<close> option comes before it, a second positional
  argument, a negative verbosity value or an element the command-line parser reports
  as an error (an unrecognized option) makes the program exit with the usage-error code
  16 (a \<^verbatim>\<open>--version\<close> or \<^verbatim>\<open>--help\<close> option met before any of these makes it
  exit with 0). When the command line is accepted and names a file that cannot be opened, the
  program exits with the file-not-found code 17. When the command line is accepted, the
  input can be opened and every command returns, \<^verbatim>\<open>main\<close> returns the success
  code 0.
\<close>

theorem C9_exit_codes:
  "(list_all (\<lambda>x. \<not> is_version_or_help x) pre \<longrightarrow>
      is_bad_option e \<or> (is_argument e \<and> list_ex is_argument pre) \<longrightarrow>
      main (pre @ e # post) file_opens steps = 16)
   \<and> (parse_command_line es = Inr g \<longrightarrow> filename g = Some f \<longrightarrow> \<not> file_opens f \<longrightarrow>
        main es file_opens steps = 17)
   \<and> (parse_command_line es = Inr g \<longrightarrow> (\<forall>f. filename g = Some f \<longrightarrow> file_opens f) \<longrightarrow>
        list_all returns_normally steps \<longrightarrow> main es file_opens steps = 0)
   \<and> YICES_EXIT_USAGE = 16 \<and> YICES_EXIT_FILE_NOT_FOUND = 17 \<and> YICES_EXIT_SUCCESS = 0
   \<and> (list_all (\<lambda>x. \<not> is_bad_option x) pre2 \<longrightarrow> length (filter is_argument pre2) \<le> 1 \<longrightarrow>
        is_version_or_help h \<longrightarrow> main (pre2 @ h # post2) file_opens steps = 0)"
proof -
  have a: "main (pre @ e # post) file_opens steps = 16"
    if "list_all (\<lambda>x. \<not> is_version_or_help x) pre"
      and "is_bad_option e \<or> (is_argument e \<and> list_ex is_argument pre)"
  proof -
    have "parse_elements initial_globals (pre @ e # post) = Inl YICES_EXIT_USAGE"
      using that by (intro parse_elements_usage) auto
    then show ?thesis
      by (simp add: main_def parse_command_line_def YICES_EXIT_USAGE_def)
  qed
  have b: "main es file_opens steps = 17"
    if "parse_command_line es = Inr g" and "filename g = Some f" and "\<not> file_opens f"
    using that by (simp add: main_def YICES_EXIT_FILE_NOT_FOUND_def)
  have c: "main es file_opens steps = 0"
    if "parse_command_line es = Inr g" and "\<forall>f. filename g = Some f \<longrightarrow> file_opens f"
      and "list_all returns_normally steps"
    using that command_loop_returns[of steps "interactive g"]
    by (auto simp add: main_def YICES_EXIT_SUCCESS_def split: option.splits)
  have d: "main (pre2 @ h # post2) file_opens steps = 0"
    if "list_all (\<lambda>x. \<not> is_bad_option x) pre2" and "length (filter is_argument pre2) \<le> 1"
      and "is_version_or_help h"
  proof -
    have "parse_elements initial_globals (pre2 @ h # post2) = Inl YICES_EXIT_SUCCESS"
      using that by (intro parse_elements_version_or_help) (simp_all add: initial_globals_def)
    then show ?thesis
      by (simp add: main_def parse_command_line_def YICES_EXIT_SUCCESS_def)
  qed
  from a b c d show ?thesis
    by (simp add: YICES_EXIT_USAGE_def YICES_EXIT_FILE_NOT_FOUND_def YICES_EXIT_SUCCESS_def)
qed

theorem C9_exit_codes_witness:
  "main [Cmdline_option show_stats_opt 0, Cmdline_argument ''a.smt2'', Cmdline_argument ''b.smt2'']
      every_file_opens [] = 16
   \<and> main [Cmdline_argument ''a.smt2'', Cmdline_option verbosity_opt (-1)] every_file_opens [] = 16
   \<and> main [Cmdline_error, Cmdline_option show_help_opt 0] every_file_opens [] = 16
   \<and> main [Cmdline_option verbosity_opt 2, Cmdline_argument ''a.smt2''] no_file_opens [] = 17
   \<and> main [Cmdline_option verbosity_opt 2, Cmdline_argument ''a.smt2''] every_file_opens
        [Smt2_returns 0, Smt2_returns (-1), Smt2_returns 0] = 0
   \<and> main [Cmdline_option incremental_opt 0] no_file_opens [Smt2_returns 0] = 0
   \<and> main [Cmdline_argument ''a.smt2'', Cmdline_option show_version_opt 0, Cmdline_error]
        no_file_opens [] = 0"
proof -
  let ?g = "\<lparr>filename = Some ''a.smt2'', incremental = False, interactive = False,
     show_stats = False, verbosity = 2\<rparr>"
  let ?h = "\<lparr>filename = None, incremental = True, interactive = False,
     show_stats = False, verbosity = 0\<rparr>"
  have p: "parse_command_line [Cmdline_option verbosity_opt 2, Cmdline_argument ''a.smt2''] = Inr ?g"
    by (simp add: parse_command_line_def initial_globals_def)
  have q: "parse_command_line [Cmdline_option incremental_opt 0] = Inr ?h"
    by (simp add: parse_command_line_def initial_globals_def)
  have 1: "main ([Cmdline_option show_stats_opt 0, Cmdline_argument ''a.smt2'']
              @ Cmdline_argument ''b.smt2'' # []) every_file_opens [] = 16"
    using C9_exit_codes[of "[Cmdline_option show_stats_opt 0, Cmdline_argument ''a.smt2'']"
        "Cmdline_argument ''b.smt2''" "[]" every_file_opens "[]"]
    by simp
  have 2: "main ([Cmdline_argument ''a.smt2''] @ Cmdline_option verbosity_opt (-1) # [])
              every_file_opens [] = 16"
    using C9_exit_codes[of "[Cmdline_argument ''a.smt2'']" "Cmdline_option verbosity_opt (-1)"
        "[]" every_file_opens "[]"]
    by simp
  have 3: "main ([] @ Cmdline_error # [Cmdline_option show_help_opt 0]) every_file_opens [] = 16"
    using C9_exit_codes[of "[]" "Cmdline_error" "[Cmdline_option show_help_opt 0]"
        every_file_opens "[]"]
    by simp
  have 4: "main [Cmdline_option verbosity_opt 2, Cmdline_argument ''a.smt2''] no_file_opens [] = 17"
    using p C9_exit_codes[of _ _ _ no_file_opens "[]"
        "[Cmdline_option verbosity_opt 2, Cmdline_argument ''a.smt2'']" ?g "''a.smt2''"]
    by (simp add: no_file_opens_def)
  have 5: "main [Cmdline_option verbosity_opt 2, Cmdline_argument ''a.smt2''] every_file_opens
        [Smt2_returns 0, Smt2_returns (-1), Smt2_returns 0] = 0"
    using p C9_exit_codes[of _ _ _ every_file_opens
        "[Smt2_returns 0, Smt2_returns (-1), Smt2_returns 0]"
        "[Cmdline_option verbosity_opt 2, Cmdline_argument ''a.smt2'']" ?g]
    by (simp add: every_file_opens_def)
  have 6: "main [Cmdline_option incremental_opt 0] no_file_opens [Smt2_returns 0] = 0"
    using q C9_exit_codes[of _ _ _ no_file_opens "[Smt2_returns 0]"
        "[Cmdline_option incremental_opt 0]" ?h]
    by simp
  have 7: "main ([Cmdline_argument ''a.smt2''] @ Cmdline_option show_version_opt 0 # [Cmdline_error])
        no_file_opens [] = 0"
    using C9_exit_codes[of _ _ _ no_file_opens "[]" _ _ _ "[Cmdline_argument ''a.smt2'']"
        "Cmdline_option show_version_opt 0" "[Cmdline_error]"]
    by simp
  from 1 2 3 4 5 6 7 show ?thesis by simp
qed

text \<open>
  C10: when \<^verbatim>\<open>parse_command_line\<close> returns and a filename was given on the command
  line (a positional argument), the \<^verbatim>\<open>filename\<close> global is set and the
  \<^verbatim>\<open>interactive\<close> flag is false, also when \<^verbatim>\<open>--interactive\<close> was given.
\<close>

theorem C10_filename_forces_non_interactive:
  assumes "parse_command_line es = Inr g"
  shows "(filename g \<noteq> None \<longrightarrow> \<not> interactive g)
       \<and> (list_ex is_argument es \<longrightarrow> filename g \<noteq> None \<and> \<not> interactive g)"
proof (cases "parse_elements initial_globals es")
  case (Inl c)
  then show ?thesis using assms by (simp add: parse_command_line_def)
next
  case (Inr g0)
  then have g: "g = (if filename g0 \<noteq> None then g0\<lparr>interactive := False\<rparr> else g0)"
    using assms by (simp add: parse_command_line_def)
  have "list_ex is_argument es \<Longrightarrow> filename g0 \<noteq> None"
    using Inr parse_elements_sets_filename by blast
  then show ?thesis using g by auto
qed

theorem C10_filename_forces_non_interactive_witness:
  "parse_command_line [Cmdline_option interactive_opt 0, Cmdline_argument ''a.smt2'']
     = Inr \<lparr>filename = Some ''a.smt2'', incremental = False, interactive = False,
            show_stats = False, verbosity = 0\<rparr>
   \<and> list_ex is_argument [Cmdline_option interactive_opt 0, Cmdline_argument ''a.smt2'']
   \<and> \<not> interactive \<lparr>filename = Some ''a.smt2'', incremental = False, interactive = False,
            show_stats = False, verbosity = 0\<rparr>
   \<and> parse_command_line [Cmdline_option interactive_opt 0]
     = Inr \<lparr>filename = None, incremental = False, interactive = True,
            show_stats = False, verbosity = 0\<rparr>"
proof -
  let ?g = "\<lparr>filename = Some ''a.smt2'', incremental = False, interactive = False,
            show_stats = False, verbosity = 0\<rparr>"
  have p: "parse_command_line [Cmdline_option interactive_opt 0, Cmdline_argument ''a.smt2'']
     = Inr ?g"
    by (simp add: parse_command_line_def initial_globals_def)
  have q: "parse_command_line [Cmdline_option interactive_opt 0]
     = Inr \<lparr>filename = None, incremental = False, interactive = True,
            show_stats = False, verbosity = 0\<rparr>"
    by (simp add: parse_command_line_def initial_globals_def)
  show ?thesis
    using p q C10_filename_forces_non_interactive[OF p] by simp
qed


section \<open>Term table (terms.h)\<close>

text \<open>
  The kinds and the descriptors are those of terms.h. A descriptor that is a pointer in
  C is modelled by what it points to: hash consing compares terms by structure.
\<close>

datatype term_kind_t =
  UNUSED_TERM | RESERVED_TERM
| CONSTANT_TERM | BV64_CONSTANT | BV_CONSTANT
| UNINTERPRETED_TERM
| ITE_TERM | EQ_TERM | DISTINCT_TERM | OR_TERM | XOR_TERM
| BV_ARRAY | BV_DIV | BV_REM | BV_SDIV | BV_SREM | BV_SMOD
| BV_SHL | BV_LSHR | BV_ASHR | BV_EQ_ATOM | BV_GE_ATOM | BV_SGE_ATOM
| BIT_TERM
| POWER_PRODUCT | BV64_POLY | BV_POLY

text \<open>
  Modelled from the spec: the type table (types.h) is not among the sources. A type is
  Boolean or a bit-vector type of a given width; the type table is hash-consed, so a
  type index is modelled by the type it denotes. A power product (pprod\_table.h, not
  among the sources) is an ordered list of term occurrences with their exponents.
\<close>

datatype type_t = Bool_type | Bitvector_type nat

type_synonym pprod_t = "(term_t \<times> uint32) list"

datatype term_desc_t =
  Integer_desc int32
| Composite_desc "term_t list"
| Select_desc uint32 term_t
| Bvconst64_desc uint32 "64 word"
| Bvconst_desc uint32 "uint32 list"
| Pprod_desc pprod_t
| Bvpoly64_desc uint32 "(64 word \<times> term_t) list"
| Bvpoly_desc uint32 "(uint32 list \<times> term_t) list"

text \<open>
  The arrays \<^verbatim>\<open>kind\<close>, \<^verbatim>\<open>type\<close> and \<^verbatim>\<open>desc\<close> of \<^verbatim>\<open>term_table_t\<close>, up to
  \<^verbatim>\<open>nelems\<close>, are one list of entries. The free list, which the code chains through
  the descriptors of deleted terms starting at \<^verbatim>\<open>free_idx\<close>, is the list of its
  indices.
\<close>

record term_entry =
  kind :: term_kind_t
  ttype :: type_t
  desc :: term_desc_t

record term_table_t =
  entries :: "term_entry list"
  free_list :: "nat list"
  live_terms :: nat

definition nelems :: "term_table_t \<Rightarrow> nat" where
  "nelems tbl = length (entries tbl)"

text \<open>
  Modelled from the spec: \<^verbatim>\<open>init_term_table\<close> is in terms.c, not among the sources.
  Index 0 is reserved and index 1 is the Boolean constant \<^verbatim>\<open>true\<close>.
\<close>

definition init_term_table :: term_table_t where
  "init_term_table =
     \<lparr>entries = [\<lparr>kind = RESERVED_TERM, ttype = Bool_type, desc = Integer_desc 0\<rparr>,
                 \<lparr>kind = CONSTANT_TERM, ttype = Bool_type, desc = Integer_desc 0\<rparr>],
      free_list = [], live_terms = 2\<rparr>"

text \<open>
  The access functions of terms.h. The functions that read \<^verbatim>\<open>kind[i]\<close> or
  \<^verbatim>\<open>type[i]\<close> assert \<^verbatim>\<open>good_term_idx\<close> in the code: the statements below assume
  that an index is valid wherever they depend on what is read.
\<close>

definition valid_term_idx :: "term_table_t \<Rightarrow> int32 \<Rightarrow> bool" where
  "valid_term_idx tbl i \<longleftrightarrow> 0 \<le> sint i \<and> sint i < int (nelems tbl)"

definition kind_at :: "term_table_t \<Rightarrow> int32 \<Rightarrow> term_kind_t" where
  "kind_at tbl i = kind (entries tbl ! nat (sint i))"

definition live_term_idx :: "term_table_t \<Rightarrow> int32 \<Rightarrow> bool" where
  "live_term_idx tbl i \<longleftrightarrow> valid_term_idx tbl i \<and> kind_at tbl i \<noteq> UNUSED_TERM"

definition good_term_idx :: "term_table_t \<Rightarrow> int32 \<Rightarrow> bool" where
  "good_term_idx tbl i \<longleftrightarrow>
     valid_term_idx tbl i \<and> kind_at tbl i \<noteq> UNUSED_TERM \<and> kind_at tbl i \<noteq> RESERVED_TERM"

definition type_for_idx :: "term_table_t \<Rightarrow> int32 \<Rightarrow> type_t" where
  "type_for_idx tbl i = ttype (entries tbl ! nat (sint i))"

definition kind_for_idx :: "term_table_t \<Rightarrow> int32 \<Rightarrow> term_kind_t" where
  "kind_for_idx tbl i = kind_at tbl i"

definition live_term :: "term_table_t \<Rightarrow> term_t \<Rightarrow> bool" where
  "live_term tbl t \<longleftrightarrow> live_term_idx tbl (index_of t)"

definition term_kind :: "term_table_t \<Rightarrow> term_t \<Rightarrow> term_kind_t" where
  "term_kind tbl t = kind_for_idx tbl (index_of t)"

definition term_type :: "term_table_t \<Rightarrow> term_t \<Rightarrow> type_t" where
  "term_type tbl t = type_for_idx tbl (index_of t)"

definition is_boolean_type :: "type_t \<Rightarrow> bool" where
  "is_boolean_type tau \<longleftrightarrow> tau = Bool_type"

definition is_boolean_term :: "term_table_t \<Rightarrow> term_t \<Rightarrow> bool" where
  "is_boolean_term tbl t \<longleftrightarrow> is_boolean_type (term_type tbl t)"

text \<open>
  Modelled from the spec: the body of \<^verbatim>\<open>good_term\<close> is in terms.c, not among the
  sources. terms.h documents it: a good term index, and polarity 0 unless the term is
  Boolean.
\<close>

definition good_term :: "term_table_t \<Rightarrow> term_t \<Rightarrow> bool" where
  "good_term tbl t \<longleftrightarrow>
     good_term_idx tbl (index_of t) \<and> (is_neg_term t \<longrightarrow> is_boolean_term tbl t)"

text \<open>
  Modelled from the spec: the term constructors are declared in terms.h and defined in
  terms.c, which is not among the sources. Following terms.h and the spec, a constructor
  does no simplification and no type checking, only hash consing: it looks for a term with
  the same kind, type and descriptor and returns it, or else stores a new term. The hash
  table is modelled by a search of the table. A new term takes the first index of the
  free list, or else the next index after the last one. \<^verbatim>\<open>new_uninterpreted_term\<close>
  always stores a new term. The result is the positive occurrence of the index. Running
  out of memory is not modelled.
\<close>

primrec find_index_of :: "'a \<Rightarrow> 'a list \<Rightarrow> nat option" where
  "find_index_of e [] = None"
| "find_index_of e (x # xs) =
     (if x = e then Some 0 else map_option Suc (find_index_of e xs))"

definition new_term :: "term_table_t \<Rightarrow> term_entry \<Rightarrow> nat \<times> term_table_t" where
  "new_term tbl e =
     (case free_list tbl of
        [] \<Rightarrow> (length (entries tbl),
               tbl\<lparr>entries := entries tbl @ [e], live_terms := live_terms tbl + 1\<rparr>)
      | i # rest \<Rightarrow> (i,
               tbl\<lparr>entries := (entries tbl)[i := e], free_list := rest,
                   live_terms := live_terms tbl + 1\<rparr>))"

definition hash_cons_term :: "term_table_t \<Rightarrow> term_entry \<Rightarrow> nat \<times> term_table_t" where
  "hash_cons_term tbl e =
     (case find_index_of e (entries tbl) of
        Some i \<Rightarrow> (i, tbl)
      | None \<Rightarrow> new_term tbl e)"

definition occ_of :: "nat \<times> term_table_t \<Rightarrow> term_t \<times> term_table_t" where
  "occ_of r = (pos_term (word_of_nat (fst r)), snd r)"

text \<open>
  Well-formed tables: the free list holds distinct indices of deleted terms, and no two
  indices hold the same hash-consed term.
\<close>

definition hash_consed_kind :: "term_kind_t \<Rightarrow> bool" where
  "hash_consed_kind k \<longleftrightarrow> k \<noteq> UNUSED_TERM \<and> k \<noteq> RESERVED_TERM \<and> k \<noteq> UNINTERPRETED_TERM"

definition wf_table :: "term_table_t \<Rightarrow> bool" where
  "wf_table tbl \<longleftrightarrow>
     distinct (free_list tbl)
     \<and> (\<forall>i \<in> set (free_list tbl). i < length (entries tbl) \<and> kind (entries tbl ! i) = UNUSED_TERM)
     \<and> (\<forall>i < length (entries tbl). \<forall>j < length (entries tbl).
          entries tbl ! i = entries tbl ! j \<longrightarrow> hash_consed_kind (kind (entries tbl ! i)) \<longrightarrow> i = j)"

definition extends :: "term_table_t \<Rightarrow> term_table_t \<Rightarrow> bool" where
  "extends t1 t2 \<longleftrightarrow>
     length (entries t1) \<le> length (entries t2)
     \<and> (\<forall>i < length (entries t1). kind (entries t1 ! i) \<noteq> UNUSED_TERM
           \<longrightarrow> entries t2 ! i = entries t1 ! i)"

lemma find_index_of_Some:
  "find_index_of e xs = Some i \<Longrightarrow> i < length xs \<and> xs ! i = e"
  by (induction xs arbitrary: i) (auto split: if_splits)

lemma find_index_of_None: "find_index_of e xs = None \<longleftrightarrow> e \<notin> set xs"
  by (induction xs) auto

lemma extends_refl: "extends t t"
  by (simp add: extends_def)

lemma extends_trans: "extends t1 t2 \<Longrightarrow> extends t2 t3 \<Longrightarrow> extends t1 t3"
  unfolding extends_def by (metis le_trans less_le_trans)

lemma extends_entry:
  "extends t1 t2 \<Longrightarrow> i < length (entries t1) \<Longrightarrow> kind (entries t1 ! i) \<noteq> UNUSED_TERM
     \<Longrightarrow> i < length (entries t2) \<and> entries t2 ! i = entries t1 ! i"
  unfolding extends_def by auto

lemma unique_list_update:
  assumes u: "\<forall>a < length xs. \<forall>b < length xs. xs ! a = xs ! b \<longrightarrow> P (xs ! a) \<longrightarrow> a = b"
    and fresh: "P e \<longrightarrow> e \<notin> set xs"
    and j: "j < length xs"
  shows "\<forall>a < length (xs[j := e]). \<forall>b < length (xs[j := e]).
           xs[j := e] ! a = xs[j := e] ! b \<longrightarrow> P (xs[j := e] ! a) \<longrightarrow> a = b"
proof (intro allI impI)
  fix a b
  assume a: "a < length (xs[j := e])" and b: "b < length (xs[j := e])"
    and eq: "xs[j := e] ! a = xs[j := e] ! b" and p: "P (xs[j := e] ! a)"
  consider "a = j" "b = j" | "a = j" "b \<noteq> j" | "a \<noteq> j" "b = j" | "a \<noteq> j" "b \<noteq> j"
    by blast
  then show "a = b"
  proof cases
    case 1
    then show ?thesis by simp
  next
    case 2
    then have "xs ! b = e" "P e" using eq p j by simp_all
    then show ?thesis using fresh b nth_mem[of b xs] by auto
  next
    case 3
    then have "xs ! a = e" "P e" using eq p j by simp_all
    then show ?thesis using fresh a nth_mem[of a xs] by auto
  next
    case 4
    then show ?thesis using u a b eq p by simp
  qed
qed

lemma unique_append:
  assumes u: "\<forall>a < length xs. \<forall>b < length xs. xs ! a = xs ! b \<longrightarrow> P (xs ! a) \<longrightarrow> a = b"
    and fresh: "P e \<longrightarrow> e \<notin> set xs"
  shows "\<forall>a < length (xs @ [e]). \<forall>b < length (xs @ [e]).
           (xs @ [e]) ! a = (xs @ [e]) ! b \<longrightarrow> P ((xs @ [e]) ! a) \<longrightarrow> a = b"
proof (intro allI impI)
  fix a b
  assume a: "a < length (xs @ [e])" and b: "b < length (xs @ [e])"
    and eq: "(xs @ [e]) ! a = (xs @ [e]) ! b" and p: "P ((xs @ [e]) ! a)"
  consider "a = length xs" "b = length xs" | "a = length xs" "b < length xs"
    | "a < length xs" "b = length xs" | "a < length xs" "b < length xs"
    using a b by (auto simp add: less_Suc_eq)
  then show "a = b"
  proof cases
    case 1
    then show ?thesis by simp
  next
    case 2
    then have "xs ! b = e" "P e" using eq p by (simp_all add: nth_append)
    then show ?thesis using fresh 2 nth_mem[of b xs] by auto
  next
    case 3
    then have "xs ! a = e" "P e" using eq p by (simp_all add: nth_append)
    then show ?thesis using fresh 3 nth_mem[of a xs] by auto
  next
    case 4
    then show ?thesis using u eq p by (simp add: nth_append)
  qed
qed

lemma new_term_props:
  assumes wf: "wf_table tbl" and k: "kind e \<noteq> UNUSED_TERM"
    and fresh: "hash_consed_kind (kind e) \<longrightarrow> e \<notin> set (entries tbl)"
    and r: "new_term tbl e = (i, t1)"
  shows "wf_table t1 \<and> extends tbl t1 \<and> i < length (entries t1) \<and> entries t1 ! i = e
         \<and> (i < length (entries tbl) \<longrightarrow> kind (entries tbl ! i) = UNUSED_TERM)"
proof (cases "free_list tbl")
  case Nil
  then have i: "i = length (entries tbl)"
    and t1: "t1 = tbl\<lparr>entries := entries tbl @ [e], live_terms := live_terms tbl + 1\<rparr>"
    using r by (auto simp add: new_term_def)
  have u: "\<forall>a < length (entries tbl). \<forall>b < length (entries tbl).
          entries tbl ! a = entries tbl ! b \<longrightarrow> hash_consed_kind (kind (entries tbl ! a)) \<longrightarrow> a = b"
    using wf by (simp add: wf_table_def)
  have "wf_table t1"
    unfolding wf_table_def t1 using Nil unique_append[OF u fresh] by simp
  moreover have "extends tbl t1"
    unfolding extends_def t1 by (simp add: nth_append)
  ultimately show ?thesis using i t1 by simp
next
  case (Cons j rest)
  then have i: "i = j"
    and t1: "t1 = tbl\<lparr>entries := (entries tbl)[j := e], free_list := rest,
                   live_terms := live_terms tbl + 1\<rparr>"
    using r by (auto simp add: new_term_def)
  have j: "j < length (entries tbl)" "kind (entries tbl ! j) = UNUSED_TERM"
    and d: "distinct rest" "j \<notin> set rest"
    and rest: "\<forall>a \<in> set rest. a < length (entries tbl) \<and> kind (entries tbl ! a) = UNUSED_TERM"
    and u: "\<forall>a < length (entries tbl). \<forall>b < length (entries tbl).
          entries tbl ! a = entries tbl ! b \<longrightarrow> hash_consed_kind (kind (entries tbl ! a)) \<longrightarrow> a = b"
    using wf Cons by (auto simp add: wf_table_def)
  have "\<forall>a \<in> set rest. a < length (entries t1) \<and> kind (entries t1 ! a) = UNUSED_TERM"
  proof
    fix a assume a: "a \<in> set rest"
    then have "a \<noteq> j" using d by auto
    then show "a < length (entries t1) \<and> kind (entries t1 ! a) = UNUSED_TERM"
      using rest a unfolding t1 by simp
  qed
  moreover have "\<forall>a < length (entries t1). \<forall>b < length (entries t1).
          entries t1 ! a = entries t1 ! b \<longrightarrow> hash_consed_kind (kind (entries t1 ! a)) \<longrightarrow> a = b"
    unfolding t1 using unique_list_update[OF u fresh j(1)] by simp
  ultimately have "wf_table t1"
    unfolding wf_table_def using d by (simp add: t1)
  moreover have "extends tbl t1"
    unfolding extends_def t1 using j by (auto simp add: nth_list_update)
  ultimately show ?thesis using i t1 j by simp
qed


lemma hash_cons_props:
  assumes wf: "wf_table tbl" and k: "hash_consed_kind (kind e)"
    and r: "hash_cons_term tbl e = (i, t1)"
  shows "wf_table t1 \<and> extends tbl t1 \<and> i < length (entries t1) \<and> entries t1 ! i = e"
proof (cases "find_index_of e (entries tbl)")
  case None
  then have n: "new_term tbl e = (i, t1)" using r by (simp add: hash_cons_term_def)
  have "e \<notin> set (entries tbl)" using None by (simp add: find_index_of_None)
  moreover have "kind e \<noteq> UNUSED_TERM" using k by (simp add: hash_consed_kind_def)
  ultimately show ?thesis using new_term_props[OF wf _ _ n] by simp
next
  case (Some j)
  then have "i = j" "t1 = tbl" using r by (simp_all add: hash_cons_term_def)
  then show ?thesis using wf Some find_index_of_Some[of e "entries tbl" j]
    by (simp add: extends_refl)
qed

lemma hash_cons_found:
  assumes wf: "wf_table t2" and i: "i < length (entries t2)" and e: "entries t2 ! i = e"
    and k: "hash_consed_kind (kind e)"
  shows "hash_cons_term t2 e = (i, t2)"
proof -
  have "e \<in> set (entries t2)" using i e nth_mem by blast
  then obtain j where j: "find_index_of e (entries t2) = Some j"
    using find_index_of_None[of e "entries t2"] by (cases "find_index_of e (entries t2)") auto
  then have jj: "j < length (entries t2)" "entries t2 ! j = e"
    using find_index_of_Some[of e "entries t2" j] by simp_all
  have u: "\<And>a b. a < length (entries t2) \<Longrightarrow> b < length (entries t2) \<Longrightarrow>
      entries t2 ! a = entries t2 ! b \<Longrightarrow> hash_consed_kind (kind (entries t2 ! a)) \<Longrightarrow> a = b"
    using wf by (simp add: wf_table_def)
  have "j = i" using u[of j i] jj i e k by simp
  then show ?thesis using j by (simp add: hash_cons_term_def)
qed

text \<open>Table operations that only add terms, and operations whose result no later addition changes.\<close>

definition grows_at :: "(term_table_t \<Rightarrow> 'a \<times> term_table_t) \<Rightarrow> term_table_t \<Rightarrow> bool" where
  "grows_at f tbl \<longleftrightarrow> wf_table (snd (f tbl)) \<and> extends tbl (snd (f tbl))"

definition stable_at :: "(term_table_t \<Rightarrow> 'a \<times> term_table_t) \<Rightarrow> term_table_t \<Rightarrow> bool" where
  "stable_at f tbl \<longleftrightarrow>
     grows_at f tbl
     \<and> (\<forall>t2. wf_table t2 \<longrightarrow> extends (snd (f tbl)) t2 \<longrightarrow> f t2 = (fst (f tbl), t2))"

definition then_do ::
  "(term_table_t \<Rightarrow> 'a \<times> term_table_t) \<Rightarrow> ('a \<Rightarrow> term_table_t \<Rightarrow> 'b \<times> term_table_t)
     \<Rightarrow> term_table_t \<Rightarrow> 'b \<times> term_table_t" where
  "then_do f g tbl = (case f tbl of (r, t1) \<Rightarrow> g r t1)"

lemma grows_then_do:
  assumes "grows_at f tbl" and "\<And>r t1. wf_table t1 \<Longrightarrow> grows_at (g r) t1"
  shows "grows_at (then_do f g) tbl"
proof -
  obtain r t1 where f: "f tbl = (r, t1)" by (cases "f tbl")
  have 1: "wf_table t1" "extends tbl t1" using assms(1) f by (simp_all add: grows_at_def)
  have "grows_at (g r) t1" using assms(2) 1 by blast
  then show ?thesis
    using 1 f extends_trans[of tbl t1 "snd (g r t1)"]
    by (simp add: grows_at_def then_do_def)
qed

lemma stable_then_do:
  assumes "stable_at f tbl" and "stable_at (g (fst (f tbl))) (snd (f tbl))"
  shows "stable_at (then_do f g) tbl"
proof -
  obtain r t1 where f: "f tbl = (r, t1)" by (cases "f tbl")
  obtain s t1' where g: "g r t1 = (s, t1')" by (cases "g r t1")
  have 1: "wf_table t1" "extends tbl t1"
    and 2: "\<And>t2. wf_table t2 \<Longrightarrow> extends t1 t2 \<Longrightarrow> f t2 = (r, t2)"
    using assms(1) f by (simp_all add: stable_at_def grows_at_def)
  have 3: "wf_table t1'" "extends t1 t1'"
    and 4: "\<And>t2. wf_table t2 \<Longrightarrow> extends t1' t2 \<Longrightarrow> g r t2 = (s, t2)"
    using assms(2) f g by (simp_all add: stable_at_def grows_at_def)
  have r: "then_do f g tbl = (s, t1')" using f g by (simp add: then_do_def)
  have "then_do f g t2 = (s, t2)" if "wf_table t2" "extends t1' t2" for t2
  proof -
    have "extends t1 t2" using 3(2) that(2) extends_trans by blast
    then have "f t2 = (r, t2)" using 2 that(1) by blast
    then show ?thesis using 4[OF that] by (simp add: then_do_def)
  qed
  then show ?thesis
    using r 1 3 extends_trans[of tbl t1 t1'] by (simp add: stable_at_def grows_at_def)
qed

lemma grows_return: "wf_table tbl \<Longrightarrow> grows_at (\<lambda>t. (x, t)) tbl"
  by (simp add: grows_at_def extends_refl)

lemma stable_return: "wf_table tbl \<Longrightarrow> stable_at (\<lambda>t. (x, t)) tbl"
  by (simp add: stable_at_def grows_at_def extends_refl)

lemma grows_hash_cons:
  assumes "wf_table tbl" and "hash_consed_kind (kind (mk tbl))"
  shows "grows_at (\<lambda>t. occ_of (hash_cons_term t (mk t))) tbl"
proof -
  obtain i t1 where r: "hash_cons_term tbl (mk tbl) = (i, t1)"
    by (cases "hash_cons_term tbl (mk tbl)")
  then show ?thesis
    using hash_cons_props[OF assms r] by (simp add: grows_at_def occ_of_def)
qed

lemma stable_hash_cons:
  assumes wf: "wf_table tbl" and k: "hash_consed_kind (kind (mk tbl))"
    and same: "\<And>t2. extends tbl t2 \<Longrightarrow> mk t2 = mk tbl"
  shows "stable_at (\<lambda>t. occ_of (hash_cons_term t (mk t))) tbl"
proof -
  obtain i t1 where r: "hash_cons_term tbl (mk tbl) = (i, t1)"
    by (cases "hash_cons_term tbl (mk tbl)")
  have p: "wf_table t1" "extends tbl t1" "i < length (entries t1)" "entries t1 ! i = mk tbl"
    using hash_cons_props[OF wf k r] by simp_all
  have "occ_of (hash_cons_term t2 (mk t2)) = (pos_term (word_of_nat i), t2)"
    if w2: "wf_table t2" and e2: "extends t1 t2" for t2
  proof -
    have "kind (entries t1 ! i) \<noteq> UNUSED_TERM"
      using p(4) k by (simp add: hash_consed_kind_def)
    then have "i < length (entries t2)" "entries t2 ! i = mk tbl"
      using extends_entry[OF e2 p(3)] p(4) by simp_all
    moreover have "mk t2 = mk tbl" using same extends_trans[OF p(2) e2] by blast
    ultimately have "hash_cons_term t2 (mk t2) = (i, t2)"
      using hash_cons_found[OF w2] k by simp
    then show ?thesis by (simp add: occ_of_def)
  qed
  then show ?thesis
    using r p by (simp add: stable_at_def grows_at_def occ_of_def)
qed


subsection \<open>Constructors\<close>

definition hash_cons_occ :: "term_kind_t \<Rightarrow> type_t \<Rightarrow> term_desc_t \<Rightarrow> term_table_t
    \<Rightarrow> term_t \<times> term_table_t" where
  "hash_cons_occ k tau d tbl = occ_of (hash_cons_term tbl \<lparr>kind = k, ttype = tau, desc = d\<rparr>)"

definition constant_term :: "term_table_t \<Rightarrow> type_t \<Rightarrow> int32 \<Rightarrow> term_t \<times> term_table_t" where
  "constant_term tbl tau index = hash_cons_occ CONSTANT_TERM tau (Integer_desc index) tbl"

definition new_uninterpreted_term :: "term_table_t \<Rightarrow> type_t \<Rightarrow> term_t \<times> term_table_t" where
  "new_uninterpreted_term tbl tau =
     occ_of (new_term tbl \<lparr>kind = UNINTERPRETED_TERM, ttype = tau, desc = Integer_desc 0\<rparr>)"

definition not_term :: "term_table_t \<Rightarrow> term_t \<Rightarrow> term_t \<times> term_table_t" where
  "not_term tbl p = (opposite_term p, tbl)"

definition ite_term ::
  "term_table_t \<Rightarrow> type_t \<Rightarrow> term_t \<Rightarrow> term_t \<Rightarrow> term_t \<Rightarrow> term_t \<times> term_table_t" where
  "ite_term tbl tau cond left right =
     hash_cons_occ ITE_TERM tau (Composite_desc [cond, left, right]) tbl"

definition eq_term :: "term_table_t \<Rightarrow> term_t \<Rightarrow> term_t \<Rightarrow> term_t \<times> term_table_t" where
  "eq_term tbl left right = hash_cons_occ EQ_TERM Bool_type (Composite_desc [left, right]) tbl"

definition distinct_term :: "term_table_t \<Rightarrow> term_t list \<Rightarrow> term_t \<times> term_table_t" where
  "distinct_term tbl arg = hash_cons_occ DISTINCT_TERM Bool_type (Composite_desc arg) tbl"

definition or_term :: "term_table_t \<Rightarrow> term_t list \<Rightarrow> term_t \<times> term_table_t" where
  "or_term tbl arg = hash_cons_occ OR_TERM Bool_type (Composite_desc arg) tbl"

definition xor_term :: "term_table_t \<Rightarrow> term_t list \<Rightarrow> term_t \<times> term_table_t" where
  "xor_term tbl arg = hash_cons_occ XOR_TERM Bool_type (Composite_desc arg) tbl"

definition bit_term :: "term_table_t \<Rightarrow> uint32 \<Rightarrow> term_t \<Rightarrow> term_t \<times> term_table_t" where
  "bit_term tbl index bv = hash_cons_occ BIT_TERM Bool_type (Select_desc index bv) tbl"

definition pprod_type :: "term_table_t \<Rightarrow> pprod_t \<Rightarrow> type_t" where
  "pprod_type tbl r = (case r of [] \<Rightarrow> Bool_type | (x, d) # rest \<Rightarrow> term_type tbl x)"

definition pprod_term :: "term_table_t \<Rightarrow> pprod_t \<Rightarrow> term_t \<times> term_table_t" where
  "pprod_term tbl r = hash_cons_occ POWER_PRODUCT (pprod_type tbl r) (Pprod_desc r) tbl"

definition bv64_constant :: "term_table_t \<Rightarrow> uint32 \<Rightarrow> 64 word \<Rightarrow> term_t \<times> term_table_t" where
  "bv64_constant tbl n bv =
     hash_cons_occ BV64_CONSTANT (Bitvector_type (unat n)) (Bvconst64_desc n bv) tbl"

definition bvconst_term :: "term_table_t \<Rightarrow> uint32 \<Rightarrow> uint32 list \<Rightarrow> term_t \<times> term_table_t" where
  "bvconst_term tbl n bv =
     hash_cons_occ BV_CONSTANT (Bitvector_type (unat n)) (Bvconst_desc n bv) tbl"

definition bvarray_term :: "term_table_t \<Rightarrow> term_t list \<Rightarrow> term_t \<times> term_table_t" where
  "bvarray_term tbl arg =
     hash_cons_occ BV_ARRAY (Bitvector_type (length arg)) (Composite_desc arg) tbl"

definition bvbinop_term ::
  "term_kind_t \<Rightarrow> term_table_t \<Rightarrow> term_t \<Rightarrow> term_t \<Rightarrow> term_t \<times> term_table_t" where
  "bvbinop_term k tbl a b = hash_cons_occ k (term_type tbl a) (Composite_desc [a, b]) tbl"

definition bvdiv_term :: "term_table_t \<Rightarrow> term_t \<Rightarrow> term_t \<Rightarrow> term_t \<times> term_table_t" where
  "bvdiv_term = bvbinop_term BV_DIV"

definition bvrem_term :: "term_table_t \<Rightarrow> term_t \<Rightarrow> term_t \<Rightarrow> term_t \<times> term_table_t" where
  "bvrem_term = bvbinop_term BV_REM"

definition bvsdiv_term :: "term_table_t \<Rightarrow> term_t \<Rightarrow> term_t \<Rightarrow> term_t \<times> term_table_t" where
  "bvsdiv_term = bvbinop_term BV_SDIV"

definition bvsrem_term :: "term_table_t \<Rightarrow> term_t \<Rightarrow> term_t \<Rightarrow> term_t \<times> term_table_t" where
  "bvsrem_term = bvbinop_term BV_SREM"

definition bvsmod_term :: "term_table_t \<Rightarrow> term_t \<Rightarrow> term_t \<Rightarrow> term_t \<times> term_table_t" where
  "bvsmod_term = bvbinop_term BV_SMOD"

definition bvshl_term :: "term_table_t \<Rightarrow> term_t \<Rightarrow> term_t \<Rightarrow> term_t \<times> term_table_t" where
  "bvshl_term = bvbinop_term BV_SHL"

definition bvlshr_term :: "term_table_t \<Rightarrow> term_t \<Rightarrow> term_t \<Rightarrow> term_t \<times> term_table_t" where
  "bvlshr_term = bvbinop_term BV_LSHR"

definition bvashr_term :: "term_table_t \<Rightarrow> term_t \<Rightarrow> term_t \<Rightarrow> term_t \<times> term_table_t" where
  "bvashr_term = bvbinop_term BV_ASHR"

definition bveq_atom :: "term_table_t \<Rightarrow> term_t \<Rightarrow> term_t \<Rightarrow> term_t \<times> term_table_t" where
  "bveq_atom tbl l r = hash_cons_occ BV_EQ_ATOM Bool_type (Composite_desc [l, r]) tbl"

definition bvge_atom :: "term_table_t \<Rightarrow> term_t \<Rightarrow> term_t \<Rightarrow> term_t \<times> term_table_t" where
  "bvge_atom tbl l r = hash_cons_occ BV_GE_ATOM Bool_type (Composite_desc [l, r]) tbl"

definition bvsge_atom :: "term_table_t \<Rightarrow> term_t \<Rightarrow> term_t \<Rightarrow> term_t \<times> term_table_t" where
  "bvsge_atom tbl l r = hash_cons_occ BV_SGE_ATOM Bool_type (Composite_desc [l, r]) tbl"

text \<open>
  Polynomials are built from a buffer: a bit size and monomials, each a coefficient and a
  power product. As terms.h describes, the empty power product becomes \<^verbatim>\<open>const_idx\<close>,
  a power product that is a single variable becomes that variable, and any other power
  product is converted with \<^verbatim>\<open>pprod_term\<close>.
\<close>

definition const_idx :: term_t where "const_idx = 0"

fun is_var_pp :: "pprod_t \<Rightarrow> bool" where
  "is_var_pp [(x, d)] = (d = 1)"
| "is_var_pp r = False"

definition term_for_pprod :: "pprod_t \<Rightarrow> term_table_t \<Rightarrow> term_t \<times> term_table_t" where
  "term_for_pprod r tbl =
     (if r = [] then (const_idx, tbl)
      else if is_var_pp r then (fst (hd r), tbl)
      else pprod_term tbl r)"

fun terms_for_pprods :: "pprod_t list \<Rightarrow> term_table_t \<Rightarrow> term_t list \<times> term_table_t" where
  "terms_for_pprods [] tbl = ([], tbl)"
| "terms_for_pprods (r # rs) tbl =
     then_do (term_for_pprod r) (\<lambda>v. then_do (terms_for_pprods rs) (\<lambda>vs t. (v # vs, t))) tbl"

type_synonym bvarith64_buffer_t = "uint32 \<times> (64 word \<times> pprod_t) list"
type_synonym bvarith_buffer_t = "uint32 \<times> (uint32 list \<times> pprod_t) list"

definition bv64_poly :: "term_table_t \<Rightarrow> bvarith64_buffer_t \<Rightarrow> term_t \<times> term_table_t" where
  "bv64_poly tbl b =
     then_do (terms_for_pprods (map snd (snd b)))
       (\<lambda>vs. hash_cons_occ BV64_POLY (Bitvector_type (unat (fst b)))
                (Bvpoly64_desc (fst b) (zip (map fst (snd b)) vs))) tbl"

definition bv_poly :: "term_table_t \<Rightarrow> bvarith_buffer_t \<Rightarrow> term_t \<times> term_table_t" where
  "bv_poly tbl b =
     then_do (terms_for_pprods (map snd (snd b)))
       (\<lambda>vs. hash_cons_occ BV_POLY (Bitvector_type (unat (fst b)))
                (Bvpoly_desc (fst b) (zip (map fst (snd b)) vs))) tbl"

text \<open>A call of one of the constructors declared in terms.h, with its arguments.\<close>

datatype constructor_call =
  Constant_term type_t int32
| New_uninterpreted_term type_t
| Not_term term_t
| Ite_term type_t term_t term_t term_t
| Eq_term term_t term_t
| Distinct_term "term_t list"
| Or_term "term_t list"
| Xor_term "term_t list"
| Bit_term uint32 term_t
| Pprod_term pprod_t
| Bv64_constant uint32 "64 word"
| Bvconst_term uint32 "uint32 list"
| Bv64_poly bvarith64_buffer_t
| Bv_poly bvarith_buffer_t
| Bvarray_term "term_t list"
| Bvdiv_term term_t term_t
| Bvrem_term term_t term_t
| Bvsdiv_term term_t term_t
| Bvsrem_term term_t term_t
| Bvsmod_term term_t term_t
| Bvshl_term term_t term_t
| Bvlshr_term term_t term_t
| Bvashr_term term_t term_t
| Bveq_atom term_t term_t
| Bvge_atom term_t term_t
| Bvsge_atom term_t term_t

fun call :: "constructor_call \<Rightarrow> term_table_t \<Rightarrow> term_t \<times> term_table_t" where
  "call (Constant_term tau index) tbl = constant_term tbl tau index"
| "call (New_uninterpreted_term tau) tbl = new_uninterpreted_term tbl tau"
| "call (Not_term p) tbl = not_term tbl p"
| "call (Ite_term tau c l r) tbl = ite_term tbl tau c l r"
| "call (Eq_term l r) tbl = eq_term tbl l r"
| "call (Distinct_term arg) tbl = distinct_term tbl arg"
| "call (Or_term arg) tbl = or_term tbl arg"
| "call (Xor_term arg) tbl = xor_term tbl arg"
| "call (Bit_term index bv) tbl = bit_term tbl index bv"
| "call (Pprod_term r) tbl = pprod_term tbl r"
| "call (Bv64_constant n bv) tbl = bv64_constant tbl n bv"
| "call (Bvconst_term n bv) tbl = bvconst_term tbl n bv"
| "call (Bv64_poly b) tbl = bv64_poly tbl b"
| "call (Bv_poly b) tbl = bv_poly tbl b"
| "call (Bvarray_term arg) tbl = bvarray_term tbl arg"
| "call (Bvdiv_term a b) tbl = bvdiv_term tbl a b"
| "call (Bvrem_term a b) tbl = bvrem_term tbl a b"
| "call (Bvsdiv_term a b) tbl = bvsdiv_term tbl a b"
| "call (Bvsrem_term a b) tbl = bvsrem_term tbl a b"
| "call (Bvsmod_term a b) tbl = bvsmod_term tbl a b"
| "call (Bvshl_term a b) tbl = bvshl_term tbl a b"
| "call (Bvlshr_term a b) tbl = bvlshr_term tbl a b"
| "call (Bvashr_term a b) tbl = bvashr_term tbl a b"
| "call (Bveq_atom l r) tbl = bveq_atom tbl l r"
| "call (Bvge_atom l r) tbl = bvge_atom tbl l r"
| "call (Bvsge_atom l r) tbl = bvsge_atom tbl l r"

fun calls :: "constructor_call list \<Rightarrow> term_table_t \<Rightarrow> term_table_t" where
  "calls [] tbl = tbl"
| "calls (c # cs) tbl = calls cs (snd (call c tbl))"

fun is_new_uninterpreted :: "constructor_call \<Rightarrow> bool" where
  "is_new_uninterpreted (New_uninterpreted_term tau) = True"
| "is_new_uninterpreted c = False"

text \<open>
  The arguments whose type a constructor reads from the table must be live terms: the
  first variable of a power product, and the first argument of a division or shift.
\<close>

definition pprod_ok :: "term_table_t \<Rightarrow> pprod_t \<Rightarrow> bool" where
  "pprod_ok tbl r \<longleftrightarrow> (case r of [] \<Rightarrow> True | (x, d) # rest \<Rightarrow> live_term tbl x)"

fun args_ok :: "term_table_t \<Rightarrow> constructor_call \<Rightarrow> bool" where
  "args_ok tbl (Pprod_term r) = pprod_ok tbl r"
| "args_ok tbl (Bv64_poly b) = list_all (pprod_ok tbl) (map snd (snd b))"
| "args_ok tbl (Bv_poly b) = list_all (pprod_ok tbl) (map snd (snd b))"
| "args_ok tbl (Bvdiv_term a b) = live_term tbl a"
| "args_ok tbl (Bvrem_term a b) = live_term tbl a"
| "args_ok tbl (Bvsdiv_term a b) = live_term tbl a"
| "args_ok tbl (Bvsrem_term a b) = live_term tbl a"
| "args_ok tbl (Bvsmod_term a b) = live_term tbl a"
| "args_ok tbl (Bvshl_term a b) = live_term tbl a"
| "args_ok tbl (Bvlshr_term a b) = live_term tbl a"
| "args_ok tbl (Bvashr_term a b) = live_term tbl a"
| "args_ok tbl c = True"


subsection \<open>Hash consing\<close>

lemma extends_live_term:
  assumes "extends t1 t2" and "live_term t1 x"
  shows "live_term t2 x \<and> term_type t2 x = term_type t1 x"
proof -
  let ?k = "nat (sint (index_of x))"
  have k: "?k < length (entries t1)" "kind (entries t1 ! ?k) \<noteq> UNUSED_TERM"
    and nn: "0 \<le> sint (index_of x)"
    using assms(2)
    by (auto simp add: live_term_def live_term_idx_def valid_term_idx_def kind_at_def nelems_def)
  have "?k < length (entries t2)" "entries t2 ! ?k = entries t1 ! ?k"
    using extends_entry[OF assms(1) k] by simp_all
  then show ?thesis
    using k nn
    by (auto simp add: live_term_def live_term_idx_def valid_term_idx_def kind_at_def nelems_def
        term_type_def type_for_idx_def)
qed

lemma extends_pprod_ok:
  assumes "extends t1 t2" and "pprod_ok t1 r"
  shows "pprod_ok t2 r \<and> pprod_type t2 r = pprod_type t1 r"
  using assms extends_live_term[OF assms(1)]
  by (cases r) (auto simp add: pprod_ok_def pprod_type_def)

lemma grows_hash_cons_occ:
  "wf_table tbl \<Longrightarrow> hash_consed_kind k \<Longrightarrow> grows_at (\<lambda>t. hash_cons_occ k (tau t) d t) tbl"
  unfolding hash_cons_occ_def
  by (rule grows_hash_cons[where mk = "\<lambda>t. \<lparr>kind = k, ttype = tau t, desc = d\<rparr>"]) simp_all

lemma stable_hash_cons_occ:
  assumes "wf_table tbl" and "hash_consed_kind k"
    and "\<And>t2. extends tbl t2 \<Longrightarrow> tau t2 = tau tbl"
  shows "stable_at (\<lambda>t. hash_cons_occ k (tau t) d t) tbl"
  unfolding hash_cons_occ_def
  by (rule stable_hash_cons[where mk = "\<lambda>t. \<lparr>kind = k, ttype = tau t, desc = d\<rparr>"])
    (use assms in simp_all)

lemma grows_new_uninterpreted:
  assumes "wf_table tbl"
  shows "grows_at (\<lambda>t. new_uninterpreted_term t tau) tbl"
proof -
  let ?e = "\<lparr>kind = UNINTERPRETED_TERM, ttype = tau, desc = Integer_desc 0\<rparr>"
  obtain i t1 where r: "new_term tbl ?e = (i, t1)" by (cases "new_term tbl ?e")
  have "wf_table t1 \<and> extends tbl t1"
    using new_term_props[OF assms _ _ r] by (simp add: hash_consed_kind_def)
  then show ?thesis
    using r by (simp add: grows_at_def new_uninterpreted_term_def occ_of_def)
qed

lemma grows_term_for_pprod: "wf_table tbl \<Longrightarrow> grows_at (term_for_pprod r) tbl"
  using grows_hash_cons_occ[of tbl POWER_PRODUCT "\<lambda>t. pprod_type t r" "Pprod_desc r"]
  by (simp add: term_for_pprod_def grows_at_def extends_refl pprod_term_def hash_consed_kind_def)

lemma grows_terms_for_pprods: "wf_table tbl \<Longrightarrow> grows_at (terms_for_pprods rs) tbl"
proof (induction rs arbitrary: tbl)
  case Nil
  then show ?case by (simp add: grows_at_def extends_refl)
next
  case (Cons r rs)
  have "grows_at (then_do (term_for_pprod r)
          (\<lambda>v. then_do (terms_for_pprods rs) (\<lambda>vs t. (v # vs, t)))) tbl"
  proof (rule grows_then_do)
    show "grows_at (term_for_pprod r) tbl" using Cons.prems by (rule grows_term_for_pprod)
  next
    fix v t1 assume w: "wf_table t1"
    show "grows_at (then_do (terms_for_pprods rs) (\<lambda>vs t. (v # vs, t))) t1"
    proof (rule grows_then_do)
      show "grows_at (terms_for_pprods rs) t1" using w by (rule Cons.IH)
    next
      fix vs t2 assume "wf_table t2"
      then show "grows_at (\<lambda>t. (v # vs, t)) t2" by (rule grows_return)
    qed
  qed
  then show ?case by (simp add: grows_at_def)
qed

lemma grows_poly:
  assumes "wf_table tbl" and "hash_consed_kind k"
  shows "grows_at (then_do (terms_for_pprods rs) (\<lambda>vs. hash_cons_occ k tau (d vs))) tbl"
proof (rule grows_then_do)
  show "grows_at (terms_for_pprods rs) tbl" using assms(1) by (rule grows_terms_for_pprods)
next
  fix vs t1 assume "wf_table t1"
  then show "grows_at (hash_cons_occ k tau (d vs)) t1"
    using grows_hash_cons_occ[of t1 k "\<lambda>t. tau" "d vs"] assms(2) by simp
qed

lemma grows_call: "wf_table tbl \<Longrightarrow> grows_at (call c) tbl"
proof (cases c)
  case (New_uninterpreted_term tau)
  assume "wf_table tbl"
  then show ?thesis
    using grows_new_uninterpreted[of tbl tau] New_uninterpreted_term
    by (simp add: grows_at_def)
next
  case (Not_term p)
  assume "wf_table tbl"
  then show ?thesis using Not_term by (simp add: grows_at_def not_term_def extends_refl)
next
  case (Pprod_term r)
  assume "wf_table tbl"
  then show ?thesis
    using Pprod_term grows_hash_cons_occ[of tbl POWER_PRODUCT "\<lambda>t. pprod_type t r" "Pprod_desc r"]
    by (simp add: grows_at_def pprod_term_def hash_consed_kind_def)
next
  case (Bv64_poly b)
  assume "wf_table tbl"
  then show ?thesis
    using Bv64_poly grows_poly[of tbl BV64_POLY "map snd (snd b)" "Bitvector_type (unat (fst b))"
        "\<lambda>vs. Bvpoly64_desc (fst b) (zip (map fst (snd b)) vs)"]
    by (simp add: grows_at_def bv64_poly_def hash_consed_kind_def)
next
  case (Bv_poly b)
  assume "wf_table tbl"
  then show ?thesis
    using Bv_poly grows_poly[of tbl BV_POLY "map snd (snd b)" "Bitvector_type (unat (fst b))"
        "\<lambda>vs. Bvpoly_desc (fst b) (zip (map fst (snd b)) vs)"]
    by (simp add: grows_at_def bv_poly_def hash_consed_kind_def)
qed (use grows_hash_cons_occ[of tbl _ "\<lambda>t. _"] grows_hash_cons_occ[of tbl _ "\<lambda>t. term_type t _"]
     in \<open>simp_all add: grows_at_def hash_consed_kind_def constant_term_def ite_term_def eq_term_def
       distinct_term_def or_term_def xor_term_def bit_term_def bv64_constant_def bvconst_term_def
       bvarray_term_def bvbinop_term_def bvdiv_term_def bvrem_term_def bvsdiv_term_def
       bvsrem_term_def bvsmod_term_def bvshl_term_def bvlshr_term_def bvashr_term_def
       bveq_atom_def bvge_atom_def bvsge_atom_def\<close>)


lemma stable_term_for_pprod:
  assumes "wf_table tbl" and "pprod_ok tbl r"
  shows "stable_at (term_for_pprod r) tbl"
proof (cases "r = [] \<or> is_var_pp r")
  case True
  then show ?thesis
    using stable_return[OF assms(1), of const_idx] stable_return[OF assms(1), of "fst (hd r)"]
    by (auto simp add: term_for_pprod_def stable_at_def grows_at_def)
next
  case False
  have "stable_at (\<lambda>t. hash_cons_occ POWER_PRODUCT (pprod_type t r) (Pprod_desc r) t) tbl"
    using assms extends_pprod_ok[of tbl _ r]
    by (intro stable_hash_cons_occ) (simp_all add: hash_consed_kind_def)
  then show ?thesis
    using False by (simp add: term_for_pprod_def stable_at_def grows_at_def pprod_term_def)
qed

lemma stable_terms_for_pprods:
  "wf_table tbl \<Longrightarrow> list_all (pprod_ok tbl) rs \<Longrightarrow> stable_at (terms_for_pprods rs) tbl"
proof (induction rs arbitrary: tbl)
  case Nil
  then show ?case using stable_return[of tbl "[]"] by (simp add: stable_at_def grows_at_def)
next
  case (Cons r rs)
  have s1: "stable_at (term_for_pprod r) tbl"
    using Cons.prems by (intro stable_term_for_pprod) simp_all
  obtain v t1 where f: "term_for_pprod r tbl = (v, t1)" by (cases "term_for_pprod r tbl")
  have t1: "wf_table t1" "extends tbl t1"
    using s1 f by (simp_all add: stable_at_def grows_at_def)
  have ok: "list_all (pprod_ok t1) rs"
    using Cons.prems(2) extends_pprod_ok[OF t1(2)] by (simp add: list_all_iff)
  have s2: "stable_at (terms_for_pprods rs) t1" using t1(1) ok by (rule Cons.IH)
  have s3: "stable_at (then_do (terms_for_pprods rs) (\<lambda>vs t. (v # vs, t))) t1"
  proof (rule stable_then_do[OF s2])
    have "wf_table (snd (terms_for_pprods rs t1))"
      using s2 by (simp add: stable_at_def grows_at_def)
    then show "stable_at (\<lambda>t. (v # fst (terms_for_pprods rs t1), t)) (snd (terms_for_pprods rs t1))"
      by (rule stable_return)
  qed
  have "stable_at (then_do (term_for_pprod r)
          (\<lambda>v. then_do (terms_for_pprods rs) (\<lambda>vs t. (v # vs, t)))) tbl"
    using s3 f by (intro stable_then_do[OF s1]) simp
  then show ?case by (simp add: stable_at_def grows_at_def)
qed

lemma stable_poly:
  assumes "wf_table tbl" and "hash_consed_kind k" and "list_all (pprod_ok tbl) rs"
  shows "stable_at (then_do (terms_for_pprods rs) (\<lambda>vs. hash_cons_occ k tau (d vs))) tbl"
proof -
  have s1: "stable_at (terms_for_pprods rs) tbl"
    using assms(1,3) by (rule stable_terms_for_pprods)
  then have w: "wf_table (snd (terms_for_pprods rs tbl))"
    by (simp add: stable_at_def grows_at_def)
  show ?thesis
    using stable_hash_cons_occ[OF w assms(2), of "\<lambda>t. tau" "d (fst (terms_for_pprods rs tbl))"]
    by (intro stable_then_do[OF s1]) simp
qed

lemma stable_call:
  assumes wf: "wf_table tbl" and ok: "args_ok tbl c" and hc: "\<not> is_new_uninterpreted c"
  shows "stable_at (call c) tbl"
proof -
  have fixed: "stable_at (\<lambda>t. hash_cons_occ k tau d t) tbl" if "hash_consed_kind k" for k tau d
    using stable_hash_cons_occ[OF wf that, of "\<lambda>t. tau" d] by simp
  have binop: "stable_at (\<lambda>t. bvbinop_term k t a b) tbl"
    if "hash_consed_kind k" and "live_term tbl a" for k a b
    unfolding bvbinop_term_def
    using wf that extends_live_term[of tbl _ a]
    by (intro stable_hash_cons_occ) simp_all
  show ?thesis
  proof (cases c)
    case (New_uninterpreted_term tau)
    then show ?thesis using hc by simp
  next
    case (Not_term p)
    then show ?thesis
      using stable_return[OF wf, of "opposite_term p"]
      by (simp add: not_term_def stable_at_def grows_at_def)
  next
    case (Pprod_term r)
    have "stable_at (\<lambda>t. hash_cons_occ POWER_PRODUCT (pprod_type t r) (Pprod_desc r) t) tbl"
      using wf ok Pprod_term extends_pprod_ok[of tbl _ r]
      by (intro stable_hash_cons_occ) (simp_all add: hash_consed_kind_def)
    then show ?thesis
      using Pprod_term by (simp add: stable_at_def grows_at_def pprod_term_def)
  next
    case (Bv64_poly b)
    then show ?thesis
      using ok stable_poly[OF wf, of BV64_POLY "map snd (snd b)" "Bitvector_type (unat (fst b))"
          "\<lambda>vs. Bvpoly64_desc (fst b) (zip (map fst (snd b)) vs)"]
      by (simp add: stable_at_def grows_at_def bv64_poly_def hash_consed_kind_def)
  next
    case (Bv_poly b)
    then show ?thesis
      using ok stable_poly[OF wf, of BV_POLY "map snd (snd b)" "Bitvector_type (unat (fst b))"
          "\<lambda>vs. Bvpoly_desc (fst b) (zip (map fst (snd b)) vs)"]
      by (simp add: stable_at_def grows_at_def bv_poly_def hash_consed_kind_def)
  next
    case (Bvdiv_term a b)
    then show ?thesis using ok binop[of BV_DIV a b]
      by (simp add: stable_at_def grows_at_def bvdiv_term_def hash_consed_kind_def)
  next
    case (Bvrem_term a b)
    then show ?thesis using ok binop[of BV_REM a b]
      by (simp add: stable_at_def grows_at_def bvrem_term_def hash_consed_kind_def)
  next
    case (Bvsdiv_term a b)
    then show ?thesis using ok binop[of BV_SDIV a b]
      by (simp add: stable_at_def grows_at_def bvsdiv_term_def hash_consed_kind_def)
  next
    case (Bvsrem_term a b)
    then show ?thesis using ok binop[of BV_SREM a b]
      by (simp add: stable_at_def grows_at_def bvsrem_term_def hash_consed_kind_def)
  next
    case (Bvsmod_term a b)
    then show ?thesis using ok binop[of BV_SMOD a b]
      by (simp add: stable_at_def grows_at_def bvsmod_term_def hash_consed_kind_def)
  next
    case (Bvshl_term a b)
    then show ?thesis using ok binop[of BV_SHL a b]
      by (simp add: stable_at_def grows_at_def bvshl_term_def hash_consed_kind_def)
  next
    case (Bvlshr_term a b)
    then show ?thesis using ok binop[of BV_LSHR a b]
      by (simp add: stable_at_def grows_at_def bvlshr_term_def hash_consed_kind_def)
  next
    case (Bvashr_term a b)
    then show ?thesis using ok binop[of BV_ASHR a b]
      by (simp add: stable_at_def grows_at_def bvashr_term_def hash_consed_kind_def)
  qed (use fixed in \<open>simp_all add: stable_at_def grows_at_def hash_consed_kind_def
       constant_term_def ite_term_def eq_term_def distinct_term_def or_term_def xor_term_def
       bit_term_def bv64_constant_def bvconst_term_def bvarray_term_def
       bveq_atom_def bvge_atom_def bvsge_atom_def\<close>)
qed

lemma calls_grow: "wf_table tbl \<Longrightarrow> wf_table (calls cs tbl) \<and> extends tbl (calls cs tbl)"
proof (induction cs arbitrary: tbl)
  case Nil
  then show ?case by (simp add: extends_refl)
next
  case (Cons c cs)
  have g: "wf_table (snd (call c tbl))" "extends tbl (snd (call c tbl))"
    using grows_call[OF Cons.prems, of c] by (simp_all add: grows_at_def)
  show ?case
    using Cons.IH[OF g(1)] g(2) extends_trans by auto
qed

lemma hash_consing_calls:
  assumes "wf_table tbl" and "args_ok tbl c" and "\<not> is_new_uninterpreted c"
  shows "call c (calls cs (snd (call c tbl))) = (fst (call c tbl), calls cs (snd (call c tbl)))"
proof -
  have s: "stable_at (call c) tbl" using assms by (rule stable_call)
  then have w: "wf_table (snd (call c tbl))" by (simp add: stable_at_def grows_at_def)
  show ?thesis
    using s calls_grow[OF w, of cs] by (simp add: stable_at_def)
qed


lemma new_uninterpreted_fresh:
  assumes "wf_table tbl"
  shows "\<exists>i. call (New_uninterpreted_term tau) tbl
               = (pos_term (word_of_nat i), snd (call (New_uninterpreted_term tau) tbl))
            \<and> (i < nelems tbl \<longrightarrow> kind (entries tbl ! i) = UNUSED_TERM)
            \<and> i < nelems (snd (call (New_uninterpreted_term tau) tbl))
            \<and> kind (entries (snd (call (New_uninterpreted_term tau) tbl)) ! i) = UNINTERPRETED_TERM"
proof -
  let ?e = "\<lparr>kind = UNINTERPRETED_TERM, ttype = tau, desc = Integer_desc 0\<rparr>"
  obtain i t1 where r: "new_term tbl ?e = (i, t1)" by (cases "new_term tbl ?e")
  have p: "i < length (entries t1)" "entries t1 ! i = ?e"
    "i < length (entries tbl) \<longrightarrow> kind (entries tbl ! i) = UNUSED_TERM"
    using new_term_props[OF assms _ _ r] by (simp_all add: hash_consed_kind_def)
  have c: "call (New_uninterpreted_term tau) tbl = (pos_term (word_of_nat i), t1)"
    using r by (simp add: new_uninterpreted_term_def occ_of_def)
  show ?thesis
    using p c by (intro exI[of _ i]) (simp add: nelems_def)
qed

lemma wf_init_term_table: "wf_table init_term_table"
  by (auto simp add: wf_table_def init_term_table_def less_Suc_eq hash_consed_kind_def)

text \<open>
  C1, as stated for every constructor: two calls of \<^verbatim>\<open>new_uninterpreted_term\<close> with
  the same type, one after the other on the initial table, return the occurrences 4 and 6
  (the term indices 2 and 3).
\<close>

theorem C1_new_uninterpreted_counterexample:
  "fst (call (New_uninterpreted_term Bool_type) init_term_table) = 4
   \<and> fst (call (New_uninterpreted_term Bool_type)
            (snd (call (New_uninterpreted_term Bool_type) init_term_table))) = 6
   \<and> fst (call (New_uninterpreted_term Bool_type)
            (snd (call (New_uninterpreted_term Bool_type) init_term_table)))
       \<noteq> fst (call (New_uninterpreted_term Bool_type) init_term_table)"
  by (simp add: new_uninterpreted_term_def new_term_def init_term_table_def occ_of_def
      pos_term_def)

text \<open>
  C1, amended: for every constructor of the term table other than
  \<^verbatim>\<open>new_uninterpreted_term\<close>, two calls with structurally equal arguments return the
  same term, whatever constructor calls are made between them, and the second call leaves
  the table unchanged. \<^verbatim>\<open>new_uninterpreted_term\<close> is not hash-consed: every call
  stores a new term at an index that was not in use.
\<close>

theorem C1_hash_consing:
  "(wf_table tbl \<longrightarrow> args_ok tbl c \<longrightarrow> \<not> is_new_uninterpreted c \<longrightarrow>
      fst (call c (calls cs (snd (call c tbl)))) = fst (call c tbl)
      \<and> snd (call c (calls cs (snd (call c tbl)))) = calls cs (snd (call c tbl)))
   \<and> (wf_table tbl \<longrightarrow>
        (\<exists>i. fst (call (New_uninterpreted_term tau) tbl) = pos_term (word_of_nat i)
           \<and> (i < nelems tbl \<longrightarrow> kind (entries tbl ! i) = UNUSED_TERM)
           \<and> i < nelems (snd (call (New_uninterpreted_term tau) tbl))
           \<and> kind (entries (snd (call (New_uninterpreted_term tau) tbl)) ! i)
               = UNINTERPRETED_TERM))"
proof -
  have a: "fst (call c (calls cs (snd (call c tbl)))) = fst (call c tbl)
      \<and> snd (call c (calls cs (snd (call c tbl)))) = calls cs (snd (call c tbl))"
    if "wf_table tbl" "args_ok tbl c" "\<not> is_new_uninterpreted c"
    using hash_consing_calls[OF that, of cs] by simp
  have b: "\<exists>i. fst (call (New_uninterpreted_term tau) tbl) = pos_term (word_of_nat i)
           \<and> (i < nelems tbl \<longrightarrow> kind (entries tbl ! i) = UNUSED_TERM)
           \<and> i < nelems (snd (call (New_uninterpreted_term tau) tbl))
           \<and> kind (entries (snd (call (New_uninterpreted_term tau) tbl)) ! i)
               = UNINTERPRETED_TERM"
    if w: "wf_table tbl"
  proof -
    obtain i where "call (New_uninterpreted_term tau) tbl
               = (pos_term (word_of_nat i), snd (call (New_uninterpreted_term tau) tbl))"
      and "i < nelems tbl \<longrightarrow> kind (entries tbl ! i) = UNUSED_TERM"
      and "i < nelems (snd (call (New_uninterpreted_term tau) tbl))"
      and "kind (entries (snd (call (New_uninterpreted_term tau) tbl)) ! i) = UNINTERPRETED_TERM"
      using new_uninterpreted_fresh[OF w, of tau] by blast
    then show ?thesis by (intro exI[of _ i]) (metis fst_conv)
  qed
  from a b show ?thesis by blast
qed

text \<open>A small table: true, an equality, a bit-vector variable and a disjunction.\<close>

definition example_table :: term_table_t where
  "example_table =
     \<lparr>entries = [\<lparr>kind = RESERVED_TERM, ttype = Bool_type, desc = Integer_desc 0\<rparr>,
                 \<lparr>kind = CONSTANT_TERM, ttype = Bool_type, desc = Integer_desc 0\<rparr>,
                 \<lparr>kind = EQ_TERM, ttype = Bool_type, desc = Composite_desc [2, 3]\<rparr>,
                 \<lparr>kind = UNINTERPRETED_TERM, ttype = Bitvector_type 8, desc = Integer_desc 0\<rparr>,
                 \<lparr>kind = OR_TERM, ttype = Bool_type, desc = Composite_desc [2, 4]\<rparr>],
      free_list = [], live_terms = 5\<rparr>"

lemma example_table_calls:
  "calls [New_uninterpreted_term (Bitvector_type 8), Or_term [2, 4]]
     (snd (call (Eq_term 2 3) init_term_table)) = example_table"
  by (simp add: eq_term_def or_term_def new_uninterpreted_term_def hash_cons_occ_def occ_of_def
      hash_cons_term_def new_term_def init_term_table_def example_table_def)

theorem C1_hash_consing_witness:
  "wf_table init_term_table \<and> args_ok init_term_table (Eq_term 2 3)
   \<and> \<not> is_new_uninterpreted (Eq_term 2 3)
   \<and> fst (call (Eq_term 2 3) init_term_table) = 4
   \<and> fst (call (Eq_term 2 3)
        (calls [New_uninterpreted_term (Bitvector_type 8), Or_term [2, 4]]
           (snd (call (Eq_term 2 3) init_term_table)))) = 4"
proof -
  have f: "fst (call (Eq_term 2 3) init_term_table) = 4"
    by (simp add: eq_term_def hash_cons_occ_def occ_of_def hash_cons_term_def new_term_def
        init_term_table_def pos_term_def)
  show ?thesis
    using f wf_init_term_table
      C1_hash_consing[of init_term_table "Eq_term 2 3"
        "[New_uninterpreted_term (Bitvector_type 8), Or_term [2, 4]]" Bool_type]
    by simp
qed

subsection \<open>Polarity\<close>

lemma index_of_pos_neg:
  assumes "index_in_range i"
  shows "index_of (pos_term i) = i" "index_of (neg_term i) = i"
proof -
  have i: "i < 2 ^ 30" using assms by (simp add: index_in_range_def)
  have z: "(0::32 word) AND 1 = 0" and o: "(1::32 word) AND 1 = 1" by simp_all
  show "index_of (pos_term i) = i"
    using index_of_shl_or[OF i z] by (simp add: pos_term_def)
  show "index_of (neg_term i) = i"
    using index_of_shl_or[OF i o] by (simp add: neg_term_def)
qed

lemma occurrences_of_index:
  assumes "index_in_range i"
  shows "{x. index_of x = i} = {pos_term i, neg_term i}"
proof -
  have "x = pos_term i \<or> x = neg_term i" if "index_of x = i" for x
    using occurrence_decomposition[of x] and1_cases[of x] that
    by (auto simp add: pos_term_def neg_term_def polarity_of_def)
  then show ?thesis using index_of_pos_neg[OF assms] by auto
qed

lemma opposite_pos_neg:
  "opposite_term (pos_term i) = neg_term i" "opposite_term (neg_term i) = pos_term i"
proof -
  show "opposite_term (pos_term i) = neg_term i"
    unfolding opposite_term_def pos_term_def neg_term_def
  proof (rule bit_word_eqI)
    fix n assume "n < LENGTH(32)"
    show "bit (push_bit 1 i XOR 1) n = bit (push_bit 1 i OR 1) n"
      unfolding bit_xor_iff bit_or_iff bit_shl1 bit_one_word by auto
  qed
  then have "opposite_term (opposite_term (pos_term i)) = opposite_term (neg_term i)" by simp
  then show "opposite_term (neg_term i) = pos_term i"
    by (simp add: opposite_term_def xor1_xor1)
qed


text \<open>
  Modelled from the spec: yices\_limits.h is not among the sources. terms.h bounds the
  number of terms by \<^verbatim>\<open>YICES_MAX_TERMS\<close>; an index occupies the bits 30 to 1 of an
  occurrence, so a table holds at most \<open>2\<^sup>3\<^sup>0\<close> terms.
\<close>

definition table_fits :: "term_table_t \<Rightarrow> bool" where
  "table_fits tbl \<longleftrightarrow> nelems tbl \<le> 2 ^ 30"

text \<open>
  The occurrences that the term table hands out. A client starts with \<^verbatim>\<open>true_term\<close>
  and \<^verbatim>\<open>false_term\<close> and obtains every other occurrence as the result of a
  constructor, called with any arguments. \<^verbatim>\<open>not_term\<close> requires its argument to be
  Boolean (``p must be boolean''), and \<^verbatim>\<open>opposite_term\<close> may replace it only ``if x is
  known to be a valid boolean term'': negation is applied to Boolean occurrences obtained
  before. The inline functions that set the polarity bit do not consult the table. Terms
  are not deleted.
\<close>

fun is_not_term :: "constructor_call \<Rightarrow> bool" where
  "is_not_term (Not_term p) = True"
| "is_not_term c = False"

inductive api_state :: "term_table_t \<Rightarrow> term_t set \<Rightarrow> bool" where
  api_init: "api_state init_term_table {true_term, false_term}"
| api_constructor:
    "api_state tbl S \<Longrightarrow> \<not> is_not_term c \<Longrightarrow> call c tbl = (t, tbl') \<Longrightarrow> table_fits tbl'
       \<Longrightarrow> api_state tbl' (insert t S)"
| api_not_term:
    "api_state tbl S \<Longrightarrow> p \<in> S \<Longrightarrow> is_boolean_term tbl p \<Longrightarrow> call (Not_term p) tbl = (t, tbl')
       \<Longrightarrow> api_state tbl' (insert t S)"

text \<open>A constructor other than \<^verbatim>\<open>not_term\<close> returns the positive occurrence of a term it holds.\<close>

definition yields_term :: "(term_table_t \<Rightarrow> term_t \<times> term_table_t) \<Rightarrow> term_table_t \<Rightarrow> bool" where
  "yields_term f tbl \<longleftrightarrow>
     (\<exists>i. fst (f tbl) = pos_term (word_of_nat i) \<and> i < nelems (snd (f tbl))
        \<and> kind (entries (snd (f tbl)) ! i) \<noteq> UNUSED_TERM
        \<and> kind (entries (snd (f tbl)) ! i) \<noteq> RESERVED_TERM)"

lemma yields_hash_cons_occ:
  assumes "wf_table tbl" and "hash_consed_kind k"
  shows "yields_term (\<lambda>t. hash_cons_occ k (tau t) d t) tbl"
proof -
  let ?e = "\<lparr>kind = k, ttype = tau tbl, desc = d\<rparr>"
  obtain i t1 where r: "hash_cons_term tbl ?e = (i, t1)" by (cases "hash_cons_term tbl ?e")
  have "i < length (entries t1) \<and> entries t1 ! i = ?e"
    using hash_cons_props[OF assms(1) _ r] assms(2) by simp
  then show ?thesis
    using r assms(2)
    by (auto simp add: yields_term_def hash_cons_occ_def occ_of_def nelems_def hash_consed_kind_def)
qed

lemma yields_then_do:
  assumes "grows_at f tbl" and "\<And>r t1. wf_table t1 \<Longrightarrow> yields_term (g r) t1"
  shows "yields_term (then_do f g) tbl"
proof -
  obtain r t1 where f: "f tbl = (r, t1)" by (cases "f tbl")
  have "wf_table t1" using assms(1) f by (simp add: grows_at_def)
  then have "yields_term (g r) t1" by (rule assms(2))
  then show ?thesis using f by (simp add: yields_term_def then_do_def)
qed

lemma yields_call:
  assumes wf: "wf_table tbl" and nn: "\<not> is_not_term c"
  shows "yields_term (call c) tbl"
proof (cases c)
  case (New_uninterpreted_term tau)
  obtain i where i: "call c tbl = (pos_term (word_of_nat i), snd (call c tbl))"
    "i < nelems (snd (call c tbl))"
    "kind (entries (snd (call c tbl)) ! i) = UNINTERPRETED_TERM"
    using new_uninterpreted_fresh[OF wf, of tau] New_uninterpreted_term by auto
  have "fst (call c tbl) = pos_term (word_of_nat i)" using i(1) by (metis fst_conv)
  then show ?thesis
    unfolding yields_term_def using i(2,3) by (intro exI[of _ i]) simp
next
  case (Not_term p)
  then show ?thesis using nn by simp
next
  case (Pprod_term r)
  then show ?thesis
    using yields_hash_cons_occ[OF wf, of POWER_PRODUCT "\<lambda>t. pprod_type t r" "Pprod_desc r"]
    by (simp add: yields_term_def pprod_term_def hash_consed_kind_def)
next
  case (Bv64_poly b)
  have "yields_term (then_do (terms_for_pprods (map snd (snd b)))
       (\<lambda>vs. hash_cons_occ BV64_POLY (Bitvector_type (unat (fst b)))
                (Bvpoly64_desc (fst b) (zip (map fst (snd b)) vs)))) tbl"
  proof (rule yields_then_do)
    show "grows_at (terms_for_pprods (map snd (snd b))) tbl"
      using wf by (rule grows_terms_for_pprods)
  next
    fix vs t1 assume "wf_table t1"
    then show "yields_term (hash_cons_occ BV64_POLY (Bitvector_type (unat (fst b)))
                (Bvpoly64_desc (fst b) (zip (map fst (snd b)) vs))) t1"
      using yields_hash_cons_occ[of t1 BV64_POLY "\<lambda>t. Bitvector_type (unat (fst b))"]
      by (simp add: hash_consed_kind_def)
  qed
  then show ?thesis using Bv64_poly by (simp add: yields_term_def bv64_poly_def)
next
  case (Bv_poly b)
  have "yields_term (then_do (terms_for_pprods (map snd (snd b)))
       (\<lambda>vs. hash_cons_occ BV_POLY (Bitvector_type (unat (fst b)))
                (Bvpoly_desc (fst b) (zip (map fst (snd b)) vs)))) tbl"
  proof (rule yields_then_do)
    show "grows_at (terms_for_pprods (map snd (snd b))) tbl"
      using wf by (rule grows_terms_for_pprods)
  next
    fix vs t1 assume "wf_table t1"
    then show "yields_term (hash_cons_occ BV_POLY (Bitvector_type (unat (fst b)))
                (Bvpoly_desc (fst b) (zip (map fst (snd b)) vs))) t1"
      using yields_hash_cons_occ[of t1 BV_POLY "\<lambda>t. Bitvector_type (unat (fst b))"]
      by (simp add: hash_consed_kind_def)
  qed
  then show ?thesis using Bv_poly by (simp add: yields_term_def bv_poly_def)
qed (use yields_hash_cons_occ[OF wf, of _ "\<lambda>t. _"]
         yields_hash_cons_occ[OF wf, of _ "\<lambda>t. term_type t _"]
     in \<open>simp_all add: yields_term_def hash_consed_kind_def constant_term_def ite_term_def eq_term_def
       distinct_term_def or_term_def xor_term_def bit_term_def bv64_constant_def bvconst_term_def
       bvarray_term_def bvbinop_term_def bvdiv_term_def bvrem_term_def bvsdiv_term_def
       bvsrem_term_def bvsmod_term_def bvshl_term_def bvlshr_term_def bvashr_term_def
       bveq_atom_def bvge_atom_def bvsge_atom_def\<close>)


lemma small_index_word:
  assumes "i < 2 ^ 30"
  shows "index_in_range (word_of_nat i)" "sint (word_of_nat i :: 32 word) = int i"
proof -
  have u: "unat (word_of_nat i :: 32 word) = i" using assms by (simp add: unat_of_nat)
  have "(word_of_nat i :: 32 word) < 2 ^ 30"
    unfolding word_less_nat_alt u using assms by simp
  then show "index_in_range (word_of_nat i)" by (simp add: index_in_range_def)
  have "signed_take_bit 31 (int i) = int i"
    using assms by (intro signed_take_bit_int_eq_self) simp_all
  then show "sint (word_of_nat i :: 32 word) = int i"
    by (simp add: signed_of_nat)
qed

lemma index_of_opposite: "index_of (opposite_term x) = index_of x"
  unfolding index_of_def opposite_term_def
proof (rule bit_word_eqI)
  fix n assume "n < LENGTH(32)"
  show "bit (signed_drop_bit 1 (x XOR 1)) n = bit (signed_drop_bit 1 x) n"
    unfolding bit_sar1 bit_xor_iff bit_one_word by auto
qed

lemma good_pos_occurrence:
  assumes "i < nelems tbl" and "table_fits tbl"
    and "kind (entries tbl ! i) \<noteq> UNUSED_TERM" and "kind (entries tbl ! i) \<noteq> RESERVED_TERM"
  shows "good_term tbl (pos_term (word_of_nat i))"
proof -
  have i: "i < 2 ^ 30" using assms(1,2) by (simp add: table_fits_def)
  have x: "index_of (pos_term (word_of_nat i)) = word_of_nat i"
    using small_index_word(1)[OF i] by (rule index_of_pos_neg)
  have z: "(0::32 word) AND 1 = 0" by simp
  have "polarity_of (pos_term (word_of_nat i)) = 0"
    using polarity_shl_or[OF z, of "word_of_nat i"] by (simp add: pos_term_def)
  then have "\<not> is_neg_term (pos_term (word_of_nat i))" by (simp add: is_neg_term_def)
  then show ?thesis
    using assms(1,3,4) small_index_word(2)[OF i]
    by (simp add: good_term_def good_term_idx_def valid_term_idx_def kind_at_def x)
qed

lemma good_opposite:
  assumes "good_term tbl p" and "is_boolean_term tbl p"
  shows "good_term tbl (opposite_term p)" "is_boolean_term tbl (opposite_term p)"
  using assms
  by (simp_all add: good_term_def is_boolean_term_def term_type_def index_of_opposite)

lemma extends_good_term:
  assumes "extends t1 t2" and "good_term t1 x"
  shows "good_term t2 x \<and> is_boolean_term t2 x = is_boolean_term t1 x"
proof -
  let ?k = "nat (sint (index_of x))"
  have k: "?k < length (entries t1)" "kind (entries t1 ! ?k) \<noteq> UNUSED_TERM"
    and nn: "0 \<le> sint (index_of x)"
    using assms(2)
    by (auto simp add: good_term_def good_term_idx_def valid_term_idx_def kind_at_def nelems_def)
  have e: "?k < length (entries t2)" "entries t2 ! ?k = entries t1 ! ?k"
    using extends_entry[OF assms(1) k] by simp_all
  have b: "is_boolean_term t2 x = is_boolean_term t1 x"
    using e by (simp add: is_boolean_term_def term_type_def type_for_idx_def)
  have kk: "kind_at t2 (index_of x) = kind_at t1 (index_of x)"
    using e(2) by (simp add: kind_at_def)
  have v: "valid_term_idx t2 (index_of x)"
    using e(1) nn by (simp add: valid_term_idx_def nelems_def nat_less_iff)
  have "good_term_idx t1 (index_of x)" using assms(2) by (simp add: good_term_def)
  then have "good_term_idx t2 (index_of x)"
    using v by (simp add: good_term_idx_def kk)
  then show ?thesis using assms(2) b by (simp add: good_term_def)
qed

lemma good_predefined:
  "good_term init_term_table true_term" "good_term init_term_table false_term"
  "table_fits init_term_table"
proof -
  have i: "index_of true_term = 1" "index_of false_term = 1"
    by (simp_all add: index_of_def true_term_def false_term_def)
  have p: "\<not> is_neg_term true_term"
    by (simp add: is_neg_term_def polarity_of_def true_term_def)
  show "good_term init_term_table true_term"
    using p
    by (simp add: good_term_def good_term_idx_def valid_term_idx_def kind_at_def nelems_def
        init_term_table_def i)
  show "good_term init_term_table false_term"
    by (simp add: good_term_def good_term_idx_def valid_term_idx_def kind_at_def nelems_def
        init_term_table_def i is_boolean_term_def is_boolean_type_def term_type_def
        type_for_idx_def)
  show "table_fits init_term_table"
    by (simp add: table_fits_def nelems_def init_term_table_def)
qed

lemma api_state_good:
  "api_state tbl S \<Longrightarrow> wf_table tbl \<and> table_fits tbl \<and> (\<forall>x \<in> S. good_term tbl x)"
proof (induction rule: api_state.induct)
  case api_init
  show ?case using wf_init_term_table good_predefined by simp
next
  case (api_constructor tbl S c t tbl')
  have wf: "wf_table tbl" using api_constructor.IH by simp
  have g: "wf_table tbl'" "extends tbl tbl'"
    using grows_call[OF wf, of c] api_constructor.hyps(3) by (simp_all add: grows_at_def)
  obtain i where i: "t = pos_term (word_of_nat i)" "i < nelems tbl'"
    "kind (entries tbl' ! i) \<noteq> UNUSED_TERM" "kind (entries tbl' ! i) \<noteq> RESERVED_TERM"
    using yields_call[OF wf api_constructor.hyps(2)] api_constructor.hyps(3)
    by (auto simp add: yields_term_def)
  have "good_term tbl' t"
    unfolding i(1) using i(2) api_constructor.hyps(4) i(3,4) by (rule good_pos_occurrence)
  moreover have "\<forall>x \<in> S. good_term tbl' x"
    using api_constructor.IH extends_good_term[OF g(2)] by blast
  ultimately show ?case using g(1) api_constructor.hyps(4) by simp
next
  case (api_not_term tbl S p t tbl')
  have t: "t = opposite_term p" "tbl' = tbl"
    using api_not_term.hyps(4) by (simp_all add: not_term_def)
  have "good_term tbl p" using api_not_term.IH api_not_term.hyps(2) by blast
  then have "good_term tbl t"
    unfolding t(1) using api_not_term.hyps(3) by (rule good_opposite)
  then show ?case using api_not_term.IH t(2) by simp
qed


text \<open>
  C5: negation is an involution on term occurrences (\<^verbatim>\<open>opposite_term\<close>) and on literals
  (\<^verbatim>\<open>not\<close>); a term index \<open>i\<close> has exactly the two occurrences \<^verbatim>\<open>(i<<1)\<close>, with low
  bit 0, and \<^verbatim>\<open>(i<<1)|1\<close>, with low bit 1, which negation exchanges; and every occurrence
  that the term table hands out is a good term, has low bit 0 when its term is not Boolean,
  and can be negated when its term is Boolean.
\<close>

theorem C5_polarity:
  "opposite_term (opposite_term t) = t \<and> not_lit (not_lit l) = l
   \<and> (index_in_range i \<longrightarrow>
        {x. index_of x = i} = {pos_term i, neg_term i}
        \<and> pos_term i \<noteq> neg_term i
        \<and> polarity_of (pos_term i) = 0 \<and> polarity_of (neg_term i) = 1
        \<and> opposite_term (pos_term i) = neg_term i \<and> opposite_term (neg_term i) = pos_term i)
   \<and> (api_state tbl S \<longrightarrow> x \<in> S \<longrightarrow>
        good_term tbl x
        \<and> (\<not> is_boolean_term tbl x \<longrightarrow> polarity_of x = 0 \<and> is_pos_term x)
        \<and> (is_boolean_term tbl x \<longrightarrow> api_state tbl (insert (opposite_term x) S)))"
proof -
  have a: "opposite_term (opposite_term t) = t" "not_lit (not_lit l) = l"
    by (simp_all add: opposite_term_def not_lit_def xor1_xor1)
  have z: "(0::32 word) AND 1 = 0" and o: "(1::32 word) AND 1 = 1" by simp_all
  have p: "polarity_of (pos_term i) = 0" "polarity_of (neg_term i) = 1"
    using polarity_shl_or[OF z, of i] polarity_shl_or[OF o, of i]
    by (simp_all add: pos_term_def neg_term_def)
  then have d: "pos_term i \<noteq> neg_term i" by auto
  have c: "index_in_range i \<longrightarrow>
        {x. index_of x = i} = {pos_term i, neg_term i}
        \<and> pos_term i \<noteq> neg_term i
        \<and> polarity_of (pos_term i) = 0 \<and> polarity_of (neg_term i) = 1
        \<and> opposite_term (pos_term i) = neg_term i \<and> opposite_term (neg_term i) = pos_term i"
    by (intro impI conjI) (simp_all add: p d occurrences_of_index opposite_pos_neg)
  have g: "api_state tbl S \<longrightarrow> x \<in> S \<longrightarrow>
        good_term tbl x
        \<and> (\<not> is_boolean_term tbl x \<longrightarrow> polarity_of x = 0 \<and> is_pos_term x)
        \<and> (is_boolean_term tbl x \<longrightarrow> api_state tbl (insert (opposite_term x) S))"
  proof (intro impI)
    assume st: "api_state tbl S" and x: "x \<in> S"
    have g1: "good_term tbl x" using api_state_good[OF st] x by blast
    have g2: "\<not> is_boolean_term tbl x \<longrightarrow> polarity_of x = 0 \<and> is_pos_term x"
      using g1 by (auto simp add: good_term_def is_neg_term_def is_pos_term_def)
    have g3: "is_boolean_term tbl x \<longrightarrow> api_state tbl (insert (opposite_term x) S)"
    proof
      assume b: "is_boolean_term tbl x"
      have "call (Not_term x) tbl = (opposite_term x, tbl)" by (simp add: not_term_def)
      with st x b show "api_state tbl (insert (opposite_term x) S)" by (rule api_not_term)
    qed
    from g1 g2 g3 show "good_term tbl x
        \<and> (\<not> is_boolean_term tbl x \<longrightarrow> polarity_of x = 0 \<and> is_pos_term x)
        \<and> (is_boolean_term tbl x \<longrightarrow> api_state tbl (insert (opposite_term x) S))"
      by (intro conjI)
  qed
  show ?thesis
    by (intro conjI) (rule a c g)+
qed

text \<open>
  An example: from the initial table, the calls that build the example table hand out the
  occurrences 4 (an equality), 6 (a bit-vector variable) and 8 (a disjunction).
\<close>

lemma example_api_state: "api_state example_table {8, 6, 4, true_term, false_term}"
proof -
  let ?e0 = "\<lparr>kind = RESERVED_TERM, ttype = Bool_type, desc = Integer_desc 0\<rparr>"
  let ?e1 = "\<lparr>kind = CONSTANT_TERM, ttype = Bool_type, desc = Integer_desc 0\<rparr>"
  let ?e2 = "\<lparr>kind = EQ_TERM, ttype = Bool_type, desc = Composite_desc [2, 3]\<rparr>"
  let ?e3 = "\<lparr>kind = UNINTERPRETED_TERM, ttype = Bitvector_type 8, desc = Integer_desc 0\<rparr>"
  let ?t1 = "\<lparr>entries = [?e0, ?e1, ?e2], free_list = [], live_terms = 3\<rparr>"
  let ?t2 = "\<lparr>entries = [?e0, ?e1, ?e2, ?e3], free_list = [], live_terms = 4\<rparr>"
  have c1: "call (Eq_term 2 3) init_term_table = (4, ?t1)"
    by (simp add: eq_term_def hash_cons_occ_def occ_of_def hash_cons_term_def new_term_def
        init_term_table_def pos_term_def)
  have c2: "call (New_uninterpreted_term (Bitvector_type 8)) ?t1 = (6, ?t2)"
    by (simp add: new_uninterpreted_term_def occ_of_def new_term_def pos_term_def)
  have c3: "call (Or_term [2, 4]) ?t2 = (8, example_table)"
    by (simp add: or_term_def hash_cons_occ_def occ_of_def hash_cons_term_def new_term_def
        example_table_def pos_term_def)
  have s1: "api_state ?t1 {4, true_term, false_term}"
    using api_init _ c1 by (rule api_constructor) (simp_all add: table_fits_def nelems_def)
  have s2: "api_state ?t2 {6, 4, true_term, false_term}"
    using s1 _ c2 by (rule api_constructor) (simp_all add: table_fits_def nelems_def)
  show ?thesis
    using s2 _ c3
    by (rule api_constructor) (simp_all add: table_fits_def nelems_def example_table_def)
qed

theorem C5_polarity_witness:
  "index_in_range bool_const
   \<and> {x. index_of x = bool_const} = {true_term, false_term}
   \<and> opposite_term true_term = false_term \<and> opposite_term false_term = true_term
   \<and> api_state example_table {8, 6, 4, true_term, false_term}
   \<and> good_term example_table 6 \<and> \<not> is_boolean_term example_table 6 \<and> polarity_of 6 = 0
   \<and> good_term example_table 4 \<and> is_boolean_term example_table 4
   \<and> api_state example_table (insert (opposite_term 4) {8, 6, 4, true_term, false_term})"
proof -
  have r: "index_in_range bool_const" by (simp add: index_in_range_def bool_const_def)
  have t: "pos_term bool_const = true_term" "neg_term bool_const = false_term"
    by (simp_all add: pos_term_def neg_term_def bool_const_def true_term_def false_term_def)
  have i: "index_of 6 = 3" "index_of 4 = 2" by (simp_all add: index_of_def)
  have nb: "\<not> is_boolean_term example_table 6" "is_boolean_term example_table 4"
    by (simp_all add: is_boolean_term_def is_boolean_type_def term_type_def type_for_idx_def
        example_table_def i)
  have m: "(6::32 word) \<in> {8, 6, 4, true_term, false_term}"
    "(4::32 word) \<in> {8, 6, 4, true_term, false_term}" by simp_all
  show ?thesis
    using r t nb m example_api_state
      C5_polarity[of _ _ bool_const example_table "{8, 6, 4, true_term, false_term}" 6]
      C5_polarity[of _ _ bool_const example_table "{8, 6, 4, true_term, false_term}" 4]
    by simp
qed


section \<open>Symbol table (symbol\_tables.h, names in terms.h)\<close>

text \<open>
  Modelled from the spec: symbol\_tables.c and the bodies of \<^verbatim>\<open>set_term_name\<close>,
  \<^verbatim>\<open>get_term_by_name\<close> and \<^verbatim>\<open>remove_term_name\<close> (terms.c) are not among the
  sources. The symbol table is a chained hash table keyed by name strings; the test
  program test\_symbol\_table.c shows its interface (\<^verbatim>\<open>stbl_add\<close>, \<^verbatim>\<open>stbl_find\<close>
  with a negative result for a name that is absent, \<^verbatim>\<open>stbl_remove\<close>) and the fields
  of a record (hash code, value, string, next record). A chain is the list of the
  records linked by \<^verbatim>\<open>next\<close>. Adding a binding puts a record in front of the chain of
  its bucket; a lookup returns the value of the first record of the chain with the same
  hash code and string; removal unlinks that first record. The hash function \<open>h\<close> is a
  parameter, and the bucket of a name is its hash code modulo the number of buckets.
  Resizing the table and the reference counts of the strings are not modelled.
\<close>

record stbl_rec_t =
  rec_hash :: uint32
  rec_value :: int32
  rec_string :: string

record stbl_t =
  stbl_data :: "stbl_rec_t list list"
  stbl_nelems :: nat

definition NULL_TERM :: term_t where "NULL_TERM = -1"

definition stbl_bucket :: "(string \<Rightarrow> uint32) \<Rightarrow> stbl_t \<Rightarrow> string \<Rightarrow> nat" where
  "stbl_bucket h tbl s = unat (h s) mod length (stbl_data tbl)"

definition rec_matches :: "uint32 \<Rightarrow> string \<Rightarrow> stbl_rec_t \<Rightarrow> bool" where
  "rec_matches hv s r \<longleftrightarrow> rec_hash r = hv \<and> rec_string r = s"

fun chain_find :: "uint32 \<Rightarrow> string \<Rightarrow> stbl_rec_t list \<Rightarrow> int32" where
  "chain_find hv s [] = -1"
| "chain_find hv s (r # rs) = (if rec_matches hv s r then rec_value r else chain_find hv s rs)"

fun chain_remove :: "uint32 \<Rightarrow> string \<Rightarrow> stbl_rec_t list \<Rightarrow> stbl_rec_t list" where
  "chain_remove hv s [] = []"
| "chain_remove hv s (r # rs) = (if rec_matches hv s r then rs else r # chain_remove hv s rs)"

definition stbl_find :: "(string \<Rightarrow> uint32) \<Rightarrow> stbl_t \<Rightarrow> string \<Rightarrow> int32" where
  "stbl_find h tbl s = chain_find (h s) s (stbl_data tbl ! stbl_bucket h tbl s)"

definition stbl_add :: "(string \<Rightarrow> uint32) \<Rightarrow> stbl_t \<Rightarrow> string \<Rightarrow> int32 \<Rightarrow> stbl_t" where
  "stbl_add h tbl s v =
     tbl\<lparr>stbl_data := (stbl_data tbl)
            [stbl_bucket h tbl s :=
               \<lparr>rec_hash = h s, rec_value = v, rec_string = s\<rparr>
                 # (stbl_data tbl ! stbl_bucket h tbl s)],
         stbl_nelems := stbl_nelems tbl + 1\<rparr>"

definition stbl_remove :: "(string \<Rightarrow> uint32) \<Rightarrow> stbl_t \<Rightarrow> string \<Rightarrow> stbl_t" where
  "stbl_remove h tbl s =
     (if list_ex (rec_matches (h s) s) (stbl_data tbl ! stbl_bucket h tbl s)
      then tbl\<lparr>stbl_data := (stbl_data tbl)
             [stbl_bucket h tbl s :=
                chain_remove (h s) s (stbl_data tbl ! stbl_bucket h tbl s)],
           stbl_nelems := stbl_nelems tbl - 1\<rparr>
      else tbl)"

text \<open>
  The fields \<^verbatim>\<open>stbl\<close> and \<^verbatim>\<open>ntbl\<close> of the term table. As terms.h documents,
  \<^verbatim>\<open>set_term_name\<close> adds the binding and makes the name the base name of the term
  when it has none, and \<^verbatim>\<open>remove_term_name\<close> leaves base names unchanged.
\<close>

record term_names =
  stbl :: stbl_t
  ntbl :: "term_t \<Rightarrow> string option"

definition set_term_name ::
  "(string \<Rightarrow> uint32) \<Rightarrow> term_names \<Rightarrow> term_t \<Rightarrow> string \<Rightarrow> term_names" where
  "set_term_name h tn t name =
     \<lparr>stbl = stbl_add h (stbl tn) name t,
      ntbl = (if ntbl tn t = None then (ntbl tn)(t \<mapsto> name) else ntbl tn)\<rparr>"

definition get_term_by_name :: "(string \<Rightarrow> uint32) \<Rightarrow> term_names \<Rightarrow> string \<Rightarrow> term_t" where
  "get_term_by_name h tn name = stbl_find h (stbl tn) name"

definition remove_term_name :: "(string \<Rightarrow> uint32) \<Rightarrow> term_names \<Rightarrow> string \<Rightarrow> term_names" where
  "remove_term_name h tn name = tn\<lparr>stbl := stbl_remove h (stbl tn) name\<rparr>"

definition term_name :: "term_names \<Rightarrow> term_t \<Rightarrow> string option" where
  "term_name tn t = ntbl tn t"

text \<open>The bindings of a name, the most recent one first.\<close>

definition chain_bindings :: "uint32 \<Rightarrow> string \<Rightarrow> stbl_rec_t list \<Rightarrow> int32 list" where
  "chain_bindings hv s chain = map rec_value (filter (rec_matches hv s) chain)"

definition bindings :: "(string \<Rightarrow> uint32) \<Rightarrow> stbl_t \<Rightarrow> string \<Rightarrow> int32 list" where
  "bindings h tbl s = chain_bindings (h s) s (stbl_data tbl ! stbl_bucket h tbl s)"

lemma chain_find_bindings:
  "chain_find hv s chain = (case chain_bindings hv s chain of [] \<Rightarrow> -1 | v # vs \<Rightarrow> v)"
  by (induction chain) (simp_all add: chain_bindings_def)

lemma chain_remove_same:
  "chain_bindings hv s (chain_remove hv s chain) = tl (chain_bindings hv s chain)"
  by (induction chain) (simp_all add: chain_bindings_def)

lemma chain_remove_other:
  "s' \<noteq> s \<Longrightarrow> chain_bindings hv' s' (chain_remove hv s chain) = chain_bindings hv' s' chain"
  by (induction chain) (auto simp add: chain_bindings_def rec_matches_def)

lemma chain_remove_absent:
  "\<not> list_ex (rec_matches hv s) chain \<Longrightarrow> chain_bindings hv s chain = []"
  by (induction chain) (simp_all add: chain_bindings_def)

lemma bucket_in_range:
  "stbl_data tbl \<noteq> [] \<Longrightarrow> stbl_bucket h tbl s < length (stbl_data tbl)"
  by (simp add: stbl_bucket_def)

lemma stbl_find_bindings:
  "stbl_find h tbl s = (case bindings h tbl s of [] \<Rightarrow> -1 | v # vs \<Rightarrow> v)"
  by (simp add: stbl_find_def bindings_def chain_find_bindings)

lemma stbl_add_bindings:
  assumes "stbl_data tbl \<noteq> []"
  shows "bindings h (stbl_add h tbl s v) s'
           = (if s' = s then v # bindings h tbl s else bindings h tbl s')"
proof -
  have b: "stbl_bucket h (stbl_add h tbl s v) x = stbl_bucket h tbl x" for x
    by (simp add: stbl_bucket_def stbl_add_def)
  have r: "stbl_bucket h tbl x < length (stbl_data tbl)" for x
    using assms by (rule bucket_in_range)
  have d: "stbl_data (stbl_add h tbl s v) = (stbl_data tbl)
            [stbl_bucket h tbl s :=
               \<lparr>rec_hash = h s, rec_value = v, rec_string = s\<rparr>
                 # (stbl_data tbl ! stbl_bucket h tbl s)]"
    by (simp add: stbl_add_def)
  show ?thesis
    unfolding bindings_def b d
    using r[of s] r[of s']
    by (auto simp add: nth_list_update chain_bindings_def rec_matches_def)
qed

lemma stbl_remove_bindings:
  assumes "stbl_data tbl \<noteq> []"
  shows "bindings h (stbl_remove h tbl s) s'
           = (if s' = s then tl (bindings h tbl s) else bindings h tbl s')"
proof (cases "list_ex (rec_matches (h s) s) (stbl_data tbl ! stbl_bucket h tbl s)")
  case False
  have "stbl_remove h tbl s = tbl" using False by (simp add: stbl_remove_def)
  then show ?thesis
    using chain_remove_absent[OF False] by (simp add: bindings_def)
next
  case True
  have b: "stbl_bucket h (stbl_remove h tbl s) x = stbl_bucket h tbl x" for x
    by (simp add: stbl_bucket_def stbl_remove_def)
  have r: "stbl_bucket h tbl x < length (stbl_data tbl)" for x
    using assms by (rule bucket_in_range)
  have d: "stbl_data (stbl_remove h tbl s) = (stbl_data tbl)
             [stbl_bucket h tbl s :=
                chain_remove (h s) s (stbl_data tbl ! stbl_bucket h tbl s)]"
    using True by (simp add: stbl_remove_def)
  show ?thesis
    unfolding bindings_def b d
    using r[of s] r[of s'] chain_remove_other[of s' s]
    by (simp add: nth_list_update chain_remove_same)
qed

lemma stbl_remove_add:
  assumes "stbl_data tbl \<noteq> []"
  shows "stbl_remove h (stbl_add h tbl s v) s = tbl"
proof -
  have b: "stbl_bucket h (stbl_add h tbl s v) s = stbl_bucket h tbl s"
    by (simp add: stbl_bucket_def stbl_add_def)
  have r: "stbl_bucket h tbl s < length (stbl_data tbl)"
    using assms by (rule bucket_in_range)
  have d: "stbl_data (stbl_add h tbl s v) = (stbl_data tbl)
            [stbl_bucket h tbl s :=
               \<lparr>rec_hash = h s, rec_value = v, rec_string = s\<rparr>
                 # (stbl_data tbl ! stbl_bucket h tbl s)]"
    and n: "stbl_nelems (stbl_add h tbl s v) = stbl_nelems tbl + 1"
    by (simp_all add: stbl_add_def)
  have m: "list_ex (rec_matches (h s) s) (stbl_data (stbl_add h tbl s v) ! stbl_bucket h tbl s)"
    unfolding d using r by (simp add: rec_matches_def)
  have "stbl_remove h (stbl_add h tbl s v) s =
      (stbl_add h tbl s v)\<lparr>stbl_data := (stbl_data (stbl_add h tbl s v))
             [stbl_bucket h tbl s :=
                chain_remove (h s) s (stbl_data (stbl_add h tbl s v) ! stbl_bucket h tbl s)],
           stbl_nelems := stbl_nelems (stbl_add h tbl s v) - 1\<rparr>"
    unfolding stbl_remove_def b using m by simp
  also have "\<dots> = tbl"
    unfolding d n using r by (simp add: rec_matches_def stbl_add_def list_update_same_conv)
  finally show ?thesis .
qed


text \<open>
  C8: rebinding a name hides the previous binding and removal reveals it. After
  \<^verbatim>\<open>set_term_name(name, t1)\<close> and \<^verbatim>\<open>set_term_name(name, t2)\<close>, the name is mapped to
  \<open>t2\<close>; after \<^verbatim>\<open>remove_term_name(name)\<close> it is mapped to \<open>t1\<close> again. The bindings
  of each name form a stack: setting a name pushes on the stack of that name, removing
  it pops the most recent binding of that name only, every other name keeps its
  bindings, and a lookup returns the top of the stack (or \<^verbatim>\<open>NULL_TERM\<close>).
\<close>

theorem C8_name_bindings:
  assumes "stbl_data (stbl tn) \<noteq> []"
  shows "get_term_by_name h (set_term_name h (set_term_name h tn t1 name) t2 name) name = t2
    \<and> get_term_by_name h
          (remove_term_name h (set_term_name h (set_term_name h tn t1 name) t2 name) name) name
        = t1
    \<and> stbl (remove_term_name h (set_term_name h tn t name) name) = stbl tn
    \<and> bindings h (stbl (set_term_name h tn t name)) other
        = (if other = name then t # bindings h (stbl tn) name else bindings h (stbl tn) other)
    \<and> bindings h (stbl (remove_term_name h tn name)) other
        = (if other = name then tl (bindings h (stbl tn) name) else bindings h (stbl tn) other)
    \<and> get_term_by_name h tn other
        = (case bindings h (stbl tn) other of [] \<Rightarrow> NULL_TERM | v # vs \<Rightarrow> v)"
proof -
  have ne: "stbl_data (stbl_add h tbl s v) \<noteq> []" if "stbl_data tbl \<noteq> []" for tbl s v
    using that by (simp add: stbl_add_def)
  have s1: "stbl (set_term_name h x t name) = stbl_add h (stbl x) name t" for x t
    by (simp add: set_term_name_def)
  have r1: "stbl (remove_term_name h x name) = stbl_remove h (stbl x) name" for x
    by (simp add: remove_term_name_def)
  have ne1: "stbl_data (stbl_add h (stbl tn) name t1) \<noteq> []"
    using assms by (rule ne)
  have a: "get_term_by_name h (set_term_name h (set_term_name h tn t1 name) t2 name) name = t2"
    using stbl_add_bindings[OF ne1, of h name t2 name]
    by (simp add: get_term_by_name_def s1 stbl_find_bindings)
  have b: "get_term_by_name h
          (remove_term_name h (set_term_name h (set_term_name h tn t1 name) t2 name) name) name
        = t1"
    using stbl_remove_add[OF ne1, of h name t2]
      stbl_add_bindings[OF assms, of h name t1 name]
    by (simp add: get_term_by_name_def s1 r1 stbl_find_bindings)
  have c: "stbl (remove_term_name h (set_term_name h tn t name) name) = stbl tn"
    using stbl_remove_add[OF assms, of h name t] by (simp add: s1 r1)
  have d: "bindings h (stbl (set_term_name h tn t name)) other
        = (if other = name then t # bindings h (stbl tn) name else bindings h (stbl tn) other)"
    using stbl_add_bindings[OF assms, of h name t other] by (simp add: s1)
  have e: "bindings h (stbl (remove_term_name h tn name)) other
        = (if other = name then tl (bindings h (stbl tn) name) else bindings h (stbl tn) other)"
    using stbl_remove_bindings[OF assms, of h name other] by (simp add: r1)
  have f: "get_term_by_name h tn other
        = (case bindings h (stbl tn) other of [] \<Rightarrow> NULL_TERM | v # vs \<Rightarrow> v)"
    by (simp add: get_term_by_name_def stbl_find_bindings NULL_TERM_def split: list.split)
  show ?thesis
    by (intro conjI) (rule a b c d e f)+
qed

text \<open>An example: a table of two buckets, with the length of a name as its hash code.\<close>

definition length_hash :: "string \<Rightarrow> uint32" where
  "length_hash s = word_of_nat (length s)"

definition empty_names :: term_names where
  "empty_names = \<lparr>stbl = \<lparr>stbl_data = [[], []], stbl_nelems = 0\<rparr>, ntbl = (\<lambda>t. None)\<rparr>"

theorem C8_name_bindings_witness:
  "stbl_data (stbl empty_names) \<noteq> []
   \<and> get_term_by_name length_hash
        (set_term_name length_hash (set_term_name length_hash empty_names 4 ''x'') 6 ''x'') ''x''
       = 6
   \<and> get_term_by_name length_hash
        (remove_term_name length_hash
          (set_term_name length_hash (set_term_name length_hash empty_names 4 ''x'') 6 ''x'')
          ''x'') ''x''
       = 4
   \<and> get_term_by_name length_hash empty_names ''x'' = NULL_TERM
   \<and> bindings length_hash
        (stbl (set_term_name length_hash (set_term_name length_hash empty_names 4 ''x'') 6 ''x''))
        ''x'' = [6, 4]"
proof -
  have ne: "stbl_data (stbl empty_names) \<noteq> []" by (simp add: empty_names_def)
  have n: "get_term_by_name length_hash empty_names ''x'' = NULL_TERM"
    by (simp add: get_term_by_name_def stbl_find_def stbl_bucket_def empty_names_def
        length_hash_def NULL_TERM_def)
  have bs: "bindings length_hash
        (stbl (set_term_name length_hash (set_term_name length_hash empty_names 4 ''x'') 6 ''x''))
        ''x'' = [6, 4]"
    by (simp add: bindings_def chain_bindings_def rec_matches_def set_term_name_def stbl_add_def
        stbl_bucket_def empty_names_def length_hash_def)
  show ?thesis
    using ne n bs C8_name_bindings[OF ne, of length_hash 4 "''x''" 6]
    by simp
qed

end
